theory Spec2Isabelle
  imports Complex_Main "HOL-Library.Word" "HOL-Library.Log_Nat"
begin

unbundle bit_operations_syntax

section \<open>The error-rate reestimation engine of erateEstimate.C\<close>

text \<open>
  The theory embeds the overlap-consistency engine of
  \<^verbatim>\<open>src/erateEstimate/erateEstimate.C\<close>: the bit-packed overlap record
  \<^verbatim>\<open>ESToverlap\<close>, the derived \<^verbatim>\<open>ESToverlapSpan\<close>, the per-read profile
  \<^verbatim>\<open>readErrorEstimate\<close>, one call of \<^verbatim>\<open>recomputeErrorProfile\<close>, the four
  calls made by \<^verbatim>\<open>main\<close>, and \<^verbatim>\<open>outputOverlaps\<close>.

  Conventions.
  \<^item> A C integer of width \<open>w\<close> is a \<open>w word\<close>; a bit-field of width \<open>w\<close> is a
    \<open>w word\<close> too, read with \<open>sint\<close> when the field is signed.
  \<^item> A C array is a list. An access outside the list is undefined behaviour in C++;
    the embedding stops there with \<open>OutOfBounds\<close>.
  \<^item> A failing \<^verbatim>\<open>assert\<close> stops with \<open>AssertFailed\<close>.
  \<^item> A \<^verbatim>\<open>double\<close> is the real number it denotes; the sum and the quotient of two
    \<^verbatim>\<open>double\<close>s are rounded to the nearest \<^verbatim>\<open>double\<close>, as IEEE 754 binary64
    arithmetic does, and a comparison is exact.
  \<^item> \<^verbatim>\<open>AS_OVS_decodeEvalue\<close>, \<^verbatim>\<open>AS_OVS_encodeEvalue\<close> and the class
    \<^verbatim>\<open>intervalList\<close> are declared in headers that are not part of the sources at
    hand; the functions below take them as the parameters \<open>dec\<close>, \<open>enc\<close> and \<open>agg\<close>.
\<close>

subsection \<open>Errors\<close>

datatype error = AssertFailed | OutOfBounds

subsection \<open>Arithmetic of doubles\<close>

text \<open>Rounding of a real number to the nearest integer, a tie going to the even one.\<close>

definition roundEven :: "real \<Rightarrow> int" where
  "roundEven x =
     (let f = \<lfloor>x\<rfloor> in
      if x - of_int f < 1 / 2 then f
      else if 1 / 2 < x - of_int f then f + 1
      else if even f then f else f + 1)"

text \<open>The exponent \<open>e\<close> with \<open>2 ^ e \<le> |x| < 2 ^ (e + 1)\<close>, for \<open>x\<close> other than 0, from the
  number of bits of an integer.\<close>

definition binade :: "real \<Rightarrow> int" where
  "binade x =
     (if 1 \<le> \<bar>x\<bar> then bitlen \<lfloor>\<bar>x\<bar>\<rfloor> - 1 else - bitlen (\<lceil>1 / \<bar>x\<bar>\<rceil> - 1))"

definition pow2 :: "int \<Rightarrow> real" where
  "pow2 k = (if 0 \<le> k then 2 ^ nat k else 1 / 2 ^ nat (- k))"

text \<open>The \<^verbatim>\<open>double\<close> nearest to a real number: 53 significant bits, a tie going to
  the even significand, and the spacing \<open>2 ^ - 1074\<close> of the subnormal numbers below
  \<open>2 ^ - 1022\<close>. No operation of the program can exceed the largest \<^verbatim>\<open>double\<close> on
  operands that are \<^verbatim>\<open>double\<close>s (a sum with 0.03, a quotient by 2 or by a depth of
  at least 1), so the exponent is not limited from above.\<close>

definition roundDouble :: "real \<Rightarrow> real" where
  "roundDouble x =
     (if x = 0 then 0
      else let q = pow2 (max (binade x - 52) (- 1074))
           in of_int (roundEven (x / q)) * q)"

text \<open>The operations \<^verbatim>\<open>+\<close>, \<^verbatim>\<open>/\<close> and \<^verbatim>\<open>*\<close> of \<^verbatim>\<open>double\<close>.\<close>

definition dadd :: "real \<Rightarrow> real \<Rightarrow> real" where
  "dadd x y = roundDouble (x + y)"

definition ddiv :: "real \<Rightarrow> real \<Rightarrow> real" where
  "ddiv x y = roundDouble (x / y)"

definition dmul :: "real \<Rightarrow> real \<Rightarrow> real" where
  "dmul x y = roundDouble (x * y)"

subsection \<open>Data\<close>

text \<open>\<^verbatim>\<open>class readErrorEstimate\<close>: \<^verbatim>\<open>seqLen\<close>, the array \<^verbatim>\<open>errorMeanS\<close> of
  \<^verbatim>\<open>uint32\<close> and the array \<^verbatim>\<open>errorMeanU\<close> of \<^verbatim>\<open>uint16\<close>.\<close>

record readErrorEstimate =
  seqLen :: "32 word"
  errorMeanS :: "32 word list"
  errorMeanU :: "16 word list"

text \<open>\<^verbatim>\<open>class ESToverlap\<close>, field by field (23 + 9, 14 + 17 and 17 + 12 + 1 + 1 bits).
  \<^verbatim>\<open>a_hang\<close> and \<^verbatim>\<open>b_hang\<close> are signed.\<close>

record ESToverlap =
  a_iid :: "23 word"
  b_iid_hi :: "9 word"
  b_iid_lo :: "14 word"
  a_hang :: "17 word"
  b_hang :: "17 word"
  erate :: "12 word"
  flipped :: "1 word"
  discarded :: "1 word"

text \<open>\<^verbatim>\<open>class ESToverlapSpan\<close>. The fields \<^verbatim>\<open>a_iid\<close>, \<^verbatim>\<open>b_iid\<close> and
  \<^verbatim>\<open>erate\<close> of the source carry the prefix \<open>span_\<close> here, since a record field is a
  constant of the theory.\<close>

record ESToverlapSpan =
  span_a_iid :: "32 word"
  span_b_iid :: "32 word"
  a_beg :: "32 word"
  a_end :: "32 word"
  b_beg :: "32 word"
  b_end :: "32 word"
  fwd :: "32 word"
  span_erate :: "32 word"

subsection \<open>The span of an overlap\<close>

text \<open>The identifier of the b read, \<^verbatim>\<open>(b_iid_hi << 14) | b_iid_lo\<close>.\<close>

definition b_iid_of :: "ESToverlap \<Rightarrow> 32 word" where
  "b_iid_of ovl = push_bit 14 (ucast (b_iid_hi ovl)) OR ucast (b_iid_lo ovl)"

text \<open>The body of the constructor \<^verbatim>\<open>ESToverlapSpan::ESToverlapSpan\<close> once the two
  sequence lengths are read. \<^verbatim>\<open>seqLenA\<close> and \<^verbatim>\<open>seqLenB\<close> are \<^verbatim>\<open>int32\<close>
  copies of the \<^verbatim>\<open>uint32\<close> lengths, the hangs are promoted to \<^verbatim>\<open>int\<close>
  (\<open>scast\<close>), and each result is stored in a \<^verbatim>\<open>uint32\<close>: the arithmetic is that of
  32-bit words.\<close>

definition spanOf :: "ESToverlap \<Rightarrow> 32 word \<Rightarrow> 32 word \<Rightarrow> ESToverlapSpan" where
  "spanOf ovl seqLenA seqLenB =
     \<lparr> span_a_iid = ucast (a_iid ovl),
       span_b_iid = b_iid_of ovl,
       a_beg = (if sint (a_hang ovl) < 0 then 0 else scast (a_hang ovl)),
       a_end = (if sint (b_hang ovl) < 0 then seqLenA + scast (b_hang ovl) else seqLenA),
       b_beg = (if sint (a_hang ovl) < 0 then - scast (a_hang ovl) else 0),
       b_end = (if sint (b_hang ovl) < 0 then seqLenB else seqLenB - scast (b_hang ovl)),
       fwd = (if flipped ovl = 0 then 1 else 0),
       span_erate = ucast (erate ovl) \<rparr>"

text \<open>The constructor itself: \<^verbatim>\<open>readProfile[a_iid - iidMin].seqLen\<close> and
  \<^verbatim>\<open>readProfile[b_iid - iidMin].seqLen\<close> are read first, the index computed in
  \<^verbatim>\<open>uint32\<close>.\<close>

definition ESToverlapSpan ::
  "ESToverlap \<Rightarrow> readErrorEstimate list \<Rightarrow> 32 word \<Rightarrow> error + ESToverlapSpan" where
  "ESToverlapSpan ovl readProfile iidMin =
     (let ia = unat (ucast (a_iid ovl) - iidMin);
          ib = unat (b_iid_of ovl - iidMin)
      in if ia < length readProfile \<and> ib < length readProfile
         then Inr (spanOf ovl (seqLen (readProfile ! ia)) (seqLen (readProfile ! ib)))
         else Inl OutOfBounds)"

subsection \<open>Packing a native overlap\<close>

text \<open>The native record \<^verbatim>\<open>ovOverlap\<close> is declared in \<^verbatim>\<open>ovStore.H\<close>, which is not
  among the sources; the record below holds what \<^verbatim>\<open>populate\<close> and
  \<^verbatim>\<open>outputOverlaps\<close> read from it: the members \<^verbatim>\<open>a_iid\<close> and \<^verbatim>\<open>b_iid\<close> and
  the results of \<^verbatim>\<open>a_hang()\<close>, \<^verbatim>\<open>b_hang()\<close>, \<^verbatim>\<open>evalue()\<close>, \<^verbatim>\<open>erate()\<close> and
  \<^verbatim>\<open>flipped()\<close>.\<close>

record ovOverlap =
  ovl_a_iid :: "32 word"
  ovl_b_iid :: "32 word"
  ovl_a_hang :: "32 word"
  ovl_b_hang :: "32 word"
  ovl_evalue :: "32 word"
  ovl_erate :: real
  ovl_flipped :: bool

text \<open>The eight assignments of \<^verbatim>\<open>ESToverlap::populate\<close>: each value is cut to the
  width of its bit-field.\<close>

definition pack :: "ovOverlap \<Rightarrow> ESToverlap" where
  "pack ovl =
     \<lparr> a_iid = ucast (ovl_a_iid ovl),
       b_iid_hi = ucast (drop_bit 14 (ovl_b_iid ovl) AND 0x000001ff),
       b_iid_lo = ucast (drop_bit 0 (ovl_b_iid ovl) AND 0x00003fff),
       a_hang = scast (ovl_a_hang ovl),
       b_hang = scast (ovl_b_hang ovl),
       erate = ucast (ovl_evalue ovl),
       flipped = (if ovl_flipped ovl then 1 else 0),
       discarded = 0 \<rparr>"

text \<open>\<^verbatim>\<open>populate\<close> with its six assertions, in the order of the source.\<close>

definition populate :: "ovOverlap \<Rightarrow> error + ESToverlap" where
  "populate ovl =
     (let p = pack ovl in
      if ovl_a_iid ovl \<noteq> ucast (a_iid p) then Inl AssertFailed
      else if ovl_b_iid ovl \<noteq> b_iid_of p then Inl AssertFailed
      else if sint (ovl_a_hang ovl) \<noteq> sint (a_hang p) then Inl AssertFailed
      else if sint (ovl_b_hang ovl) \<noteq> sint (b_hang p) then Inl AssertFailed
      else if ovl_erate ovl \<noteq> real (unat (erate p)) then Inl AssertFailed
      else if ovl_flipped ovl \<noteq> (flipped p = 1) then Inl AssertFailed
      else Inr p)"

subsection \<open>Loops\<close>

text \<open>A \<^verbatim>\<open>for\<close> loop over a range, or over the entries of a list, whose body may
  abort: the body runs on each element in turn and the first error ends the loop.\<close>

fun forEach :: "('i \<Rightarrow> 's \<Rightarrow> error + 's) \<Rightarrow> 'i list \<Rightarrow> 's \<Rightarrow> error + 's" where
  "forEach body [] s = Inr s"
| "forEach body (i # is) s =
     (case body i s of Inl e \<Rightarrow> Inl e | Inr s' \<Rightarrow> forEach body is s')"

subsection \<open>The estimate of an overlap's error rate\<close>

text \<open>\<^verbatim>\<open>readProfile[r].errorMeanS[i]\<close>.\<close>

definition errorMeanS_at :: "readErrorEstimate list \<Rightarrow> 32 word \<Rightarrow> 32 word \<Rightarrow> error + 32 word" where
  "errorMeanS_at readProfile r i =
     (if unat r < length readProfile \<and> unat i < length (errorMeanS (readProfile ! unat r))
      then Inr (errorMeanS (readProfile ! unat r) ! unat i)
      else Inl OutOfBounds)"

text \<open>The argument that \<^verbatim>\<open>computeEstimatedErate\<close> hands to
  \<^verbatim>\<open>AS_OVS_decodeEvalue\<close>: both differences are taken in \<^verbatim>\<open>uint32\<close>, stored in
  \<^verbatim>\<open>uint64\<close>, and each is halved by integer division before the sum.\<close>

definition estErrorSum :: "32 word \<Rightarrow> 32 word \<Rightarrow> 32 word \<Rightarrow> 32 word \<Rightarrow> 64 word" where
  "estErrorSum sae sab sbe sbb =
     (let estErrorA = (ucast (sae - sab) :: 64 word);
          estErrorB = (ucast (sbe - sbb) :: 64 word)
      in (estErrorA div 2) + (estErrorB div 2))"

definition computeEstimatedErate ::
  "(nat \<Rightarrow> real) \<Rightarrow> 32 word \<Rightarrow> ESToverlapSpan \<Rightarrow> readErrorEstimate list \<Rightarrow> error + real" where
  "computeEstimatedErate dec iidMin ovl readProfile =
     (let ab = a_beg ovl; ae = a_end ovl; bb = b_beg ovl; be = b_end ovl in
      if \<not> ab < ae then Inl AssertFailed
      else (case errorMeanS_at readProfile (span_a_iid ovl - iidMin) ae of
        Inl e \<Rightarrow> Inl e
      | Inr sae \<Rightarrow>
      (case errorMeanS_at readProfile (span_a_iid ovl - iidMin) ab of
        Inl e \<Rightarrow> Inl e
      | Inr sab \<Rightarrow>
      if \<not> bb < be then Inl AssertFailed
      else (case errorMeanS_at readProfile (span_b_iid ovl - iidMin) be of
        Inl e \<Rightarrow> Inl e
      | Inr sbe \<Rightarrow>
      (case errorMeanS_at readProfile (span_b_iid ovl - iidMin) bb of
        Inl e \<Rightarrow> Inl e
      | Inr sbb \<Rightarrow> Inr (dec (unat (estErrorSum sae sab sbe sbb))))))))"

subsection \<open>One call of recomputeErrorProfile\<close>

text \<open>\<^verbatim>\<open>#define ERATE_TOLERANCE 0.03\<close>: the literal denotes the \<^verbatim>\<open>double\<close> nearest to
  \<open>3 / 100\<close>.\<close>

definition ERATE_TOLERANCE :: real where
  "ERATE_TOLERANCE = roundDouble (3 / 100)"

text \<open>What the engine works on: the overlap index, the overlaps and the profiles.\<close>

record engine =
  overlapIndex :: "64 word list"
  overlaps :: "ESToverlap list"
  readProfile :: "readErrorEstimate list"

text \<open>An entry of \<^verbatim>\<open>eRateList\<close>, as \<^verbatim>\<open>add(position, length, value)\<close> receives it,
  and an interval of \<^verbatim>\<open>eRateMap\<close> as \<^verbatim>\<open>lo(ii)\<close>, \<^verbatim>\<open>hi(ii)\<close>, \<^verbatim>\<open>value(ii)\<close>
  and \<^verbatim>\<open>depth(ii)\<close> return it.\<close>

type_synonym entry = "32 word \<times> 32 word \<times> real"

record interval =
  iv_lo :: "32 word"
  iv_hi :: "32 word"
  iv_value :: real
  iv_depth :: "32 word"

text \<open>The entry that \<^verbatim>\<open>eRateList.add(ovl.a_beg, ovl.a_end - ovl.a_beg, erate / 2)\<close>
  appends.\<close>

definition entryOf :: "(nat \<Rightarrow> real) \<Rightarrow> ESToverlapSpan \<Rightarrow> entry" where
  "entryOf dec ovl = (a_beg ovl, a_end ovl - a_beg ovl, ddiv (dec (unat (span_erate ovl))) 2)"

text \<open>The body of the loop over the overlaps of read \<open>iid\<close> (lines 318 to 351); the
  state is the engine together with \<^verbatim>\<open>eRateList\<close>.\<close>

definition overlapBody ::
  "(nat \<Rightarrow> real) \<Rightarrow> 32 word \<Rightarrow> 32 word \<Rightarrow> 32 word \<Rightarrow> nat \<Rightarrow> engine \<times> entry list
     \<Rightarrow> error + engine \<times> entry list" where
  "overlapBody dec iidMin iter iid oo s =
     (let st = fst s; eRateList = snd s in
      if \<not> oo < length (overlaps st) then Inl OutOfBounds
      else if discarded (overlaps st ! oo) = 1 then Inr s
      else case ESToverlapSpan (overlaps st ! oo) (readProfile st) iidMin of
        Inl e \<Rightarrow> Inl e
      | Inr ovl \<Rightarrow>
          if span_a_iid ovl \<noteq> iid + iidMin then Inl AssertFailed
          else if \<not> a_beg ovl \<le> a_end ovl then Inl AssertFailed
          else if 0 < iter then
            (case computeEstimatedErate dec iidMin ovl (readProfile st) of
               Inl e \<Rightarrow> Inl e
             | Inr estError \<Rightarrow>
                 if dadd estError ERATE_TOLERANCE < dec (unat (span_erate ovl))
                 then Inr (st\<lparr>overlaps :=
                             (overlaps st)[oo := (overlaps st ! oo)\<lparr>discarded := 1\<rparr>]\<rparr>,
                           eRateList)
                 else Inr (st, eRateList @ [entryOf dec ovl]))
          else Inr (st, eRateList @ [entryOf dec ovl]))"

text \<open>The loop itself, from \<^verbatim>\<open>overlapIndex[iid]\<close> up to \<^verbatim>\<open>overlapIndex[iid+1]\<close>,
  starting with an empty \<^verbatim>\<open>eRateList\<close>.\<close>

definition gatherOverlaps ::
  "(nat \<Rightarrow> real) \<Rightarrow> 32 word \<Rightarrow> 32 word \<Rightarrow> nat \<Rightarrow> engine \<Rightarrow> error + engine \<times> entry list" where
  "gatherOverlaps dec iidMin iter iid st =
     (if \<not> iid + 1 < length (overlapIndex st) then Inl OutOfBounds
      else forEach (overlapBody dec iidMin iter (of_nat iid))
             [unat (overlapIndex st ! iid) ..< unat (overlapIndex st ! (iid + 1))] (st, []))"

text \<open>The mean of an interval of \<^verbatim>\<open>eRateMap\<close> (line 362): the value over the depth,
  a division of \<^verbatim>\<open>double\<close>s, and 0 at depth 0.\<close>

definition eVal :: "interval \<Rightarrow> real" where
  "eVal iv = (if 0 < iv_depth iv then ddiv (iv_value iv) (real (unat (iv_depth iv))) else 0)"

text \<open>The body of the loop over the intervals of \<^verbatim>\<open>eRateMap\<close> (lines 361 to 373).\<close>

definition unpackBody ::
  "(real \<Rightarrow> 16 word) \<Rightarrow> 32 word \<Rightarrow> interval \<Rightarrow> 16 word list \<Rightarrow> error + 16 word list" where
  "unpackBody enc len iv U =
     (if \<not> 0 \<le> eVal iv then Inl AssertFailed
      else if \<not> eVal iv \<le> 1 then Inl AssertFailed
      else if \<not> iv_hi iv \<le> len then Inl AssertFailed
      else if iv_lo iv < iv_hi iv \<and> length U < unat (iv_hi iv) then Inl OutOfBounds
      else Inr (fold (\<lambda>pp U. U[pp := enc (eVal iv)]) [unat (iv_lo iv) ..< unat (iv_hi iv)] U))"

text \<open>\<^verbatim>\<open>memset(errorMeanU, 0, sizeof(uint16) * (seqLen + 1))\<close>.\<close>

definition memsetU :: "32 word \<Rightarrow> 16 word list \<Rightarrow> error + 16 word list" where
  "memsetU len U =
     (let n = unat (len + 1) in
      if length U < n then Inl OutOfBounds else Inr (replicate n 0 @ drop n U))"

text \<open>The work item of read \<open>iid\<close>: one round of the \<^verbatim>\<open>omp parallel for\<close> loop (lines
  307 to 379). The rounds are run one after the other here. The counters
  \<^verbatim>\<open>nDiscarded\<close>, \<^verbatim>\<open>nDiscard\<close> and \<^verbatim>\<open>nRemain\<close> and the progress output are
  left out.\<close>

definition processRead ::
  "(nat \<Rightarrow> real) \<Rightarrow> (real \<Rightarrow> 16 word) \<Rightarrow> (entry list \<Rightarrow> interval list) \<Rightarrow> 32 word \<Rightarrow> 32 word
     \<Rightarrow> nat \<Rightarrow> engine \<Rightarrow> error + engine" where
  "processRead dec enc agg iidMin iter iid st =
     (if \<not> iid < length (readProfile st) then Inl OutOfBounds
      else if seqLen (readProfile st ! iid) = 0 then Inr st
      else case gatherOverlaps dec iidMin iter iid st of
        Inl e \<Rightarrow> Inl e
      | Inr (st1, eRateList) \<Rightarrow>
          (let p = readProfile st1 ! iid in
           case memsetU (seqLen p) (errorMeanU p) of
             Inl e \<Rightarrow> Inl e
           | Inr U0 \<Rightarrow>
               (case forEach (unpackBody enc (seqLen p)) (agg eRateList) U0 of
                  Inl e \<Rightarrow> Inl e
                | Inr U \<Rightarrow>
                    Inr (st1\<lparr>readProfile := (readProfile st1)[iid := p\<lparr>errorMeanU := U\<rparr>]\<rparr>))))"

text \<open>The second pass (lines 384 to 392): \<^verbatim>\<open>errorMeanS[0] = errorMeanU[0]\<close>, then
  \<^verbatim>\<open>errorMeanS[ii] = errorMeanS[ii-1] + errorMeanU[ii]\<close> for \<^verbatim>\<open>ii\<close> from 1 while
  \<^verbatim>\<open>ii < seqLen\<close>.\<close>

definition sumProfile :: "nat \<Rightarrow> 16 word list \<Rightarrow> 32 word list \<Rightarrow> 32 word list" where
  "sumProfile n U S =
     fold (\<lambda>ii S. S[ii := S ! (ii - 1) + ucast (U ! ii)]) [1 ..< n] (S[0 := ucast (U ! 0)])"

definition sumBody :: "nat \<Rightarrow> engine \<Rightarrow> error + engine" where
  "sumBody iid st =
     (if \<not> iid < length (readProfile st) then Inl OutOfBounds
      else let p = readProfile st ! iid in
        if seqLen p = 0 then Inr st
        else if length (errorMeanS p) < unat (seqLen p) \<or> length (errorMeanU p) < unat (seqLen p)
        then Inl OutOfBounds
        else Inr (st\<lparr>readProfile := (readProfile st)
                    [iid := p\<lparr>errorMeanS := sumProfile (unat (seqLen p)) (errorMeanU p) (errorMeanS p)\<rparr>]\<rparr>))"

definition recomputeErrorProfile ::
  "(nat \<Rightarrow> real) \<Rightarrow> (real \<Rightarrow> 16 word) \<Rightarrow> (entry list \<Rightarrow> interval list) \<Rightarrow> 32 word \<Rightarrow> 32 word
     \<Rightarrow> 32 word \<Rightarrow> engine \<Rightarrow> error + engine" where
  "recomputeErrorProfile dec enc agg iidMin numIIDs iter st =
     (case forEach (processRead dec enc agg iidMin iter) [0 ..< unat numIIDs] st of
        Inl e \<Rightarrow> Inl e
      | Inr st1 \<Rightarrow> forEach sumBody [0 ..< unat numIIDs] st1)"

text \<open>The four calls of \<^verbatim>\<open>main\<close>, with \<^verbatim>\<open>ii\<close> from 0 to 3.\<close>

definition runIterations ::
  "(nat \<Rightarrow> real) \<Rightarrow> (real \<Rightarrow> 16 word) \<Rightarrow> (entry list \<Rightarrow> interval list) \<Rightarrow> 32 word \<Rightarrow> 32 word
     \<Rightarrow> engine \<Rightarrow> error + engine" where
  "runIterations dec enc agg iidMin numIIDs st =
     forEach (\<lambda>ii. recomputeErrorProfile dec enc agg iidMin numIIDs (of_nat ii)) [0 ..< 4] st"

subsection \<open>The output pass\<close>

text \<open>The inner loop of \<^verbatim>\<open>outputOverlaps\<close> on one record of a loaded block: the state
  is the position \<^verbatim>\<open>no\<close> and the records written so far.\<close>

definition outputBody ::
  "ESToverlap list \<Rightarrow> ovOverlap \<Rightarrow> nat \<times> ovOverlap list \<Rightarrow> error + nat \<times> ovOverlap list" where
  "outputBody ovs r s =
     (let no = fst s; out = snd s in
      if \<not> no < length ovs then Inl OutOfBounds
      else if ovl_a_iid r \<noteq> ucast (a_iid (ovs ! no)) then Inl AssertFailed
      else if ovl_b_iid r \<noteq> b_iid_of (ovs ! no) then Inl AssertFailed
      else if discarded (ovs ! no) = 1 then Inr (no + 1, out)
      else Inr (no + 1, out @ [r]))"

text \<open>The outer loop. The input store is the list of the blocks that the successive
  calls of \<^verbatim>\<open>loadBlockOfOverlaps\<close> return; past the last block a call returns no
  record, and \<^verbatim>\<open>assert(nLoad > 0)\<close> fails.\<close>

fun outputLoop ::
  "nat \<Rightarrow> ESToverlap list \<Rightarrow> ovOverlap list list \<Rightarrow> nat \<times> ovOverlap list
     \<Rightarrow> error + nat \<times> ovOverlap list" where
  "outputLoop numOvls ovs [] s =
     (if fst s < numOvls then Inl AssertFailed else Inr s)"
| "outputLoop numOvls ovs (b # bs) s =
     (if fst s < numOvls then
        (if b = [] then Inl AssertFailed
         else case forEach (outputBody ovs) b s of
           Inl e \<Rightarrow> Inl e
         | Inr s' \<Rightarrow> outputLoop numOvls ovs bs s')
      else Inr s)"

definition outputOverlaps :: "nat \<Rightarrow> ovOverlap list list \<Rightarrow> ESToverlap list \<Rightarrow> error + ovOverlap list" where
  "outputOverlaps numOvls blocks ovs =
     (case outputLoop numOvls ovs blocks (0, []) of Inl e \<Rightarrow> Inl e | Inr s \<Rightarrow> Inr (snd s))"

text \<open>The end of \<^verbatim>\<open>main\<close> (lines 732 to 745): the four iterations, then the output
  pass on the overlaps as the iterations left them. \<^verbatim>\<open>outputOverlaps\<close> only reads the
  overlaps, so the state after the run is the state after the iterations.\<close>

definition engineRun ::
  "(nat \<Rightarrow> real) \<Rightarrow> (real \<Rightarrow> 16 word) \<Rightarrow> (entry list \<Rightarrow> interval list) \<Rightarrow> 32 word \<Rightarrow> 32 word
     \<Rightarrow> nat \<Rightarrow> ovOverlap list list \<Rightarrow> engine \<Rightarrow> error + engine \<times> ovOverlap list" where
  "engineRun dec enc agg iidMin numIIDs numOvls blocks st =
     (case runIterations dec enc agg iidMin numIIDs st of
        Inl e \<Rightarrow> Inl e
      | Inr st' \<Rightarrow>
          (case outputOverlaps numOvls blocks (overlaps st') of
             Inl e \<Rightarrow> Inl e
           | Inr out \<Rightarrow> Inr (st', out)))"

subsection \<open>The collaborators, for concrete runs\<close>

text \<open>Modelled from the spec: \<^verbatim>\<open>AS_OVS_decodeEvalue\<close> and \<^verbatim>\<open>AS_OVS_encodeEvalue\<close>
  are not defined in the sources at hand. The spec describes a monotonic quantisation of an
  error rate in \<open>[0, 1]\<close> that round-trips at the stored resolution, and leaves the scale
  open; here a quantised value counts units of \<open>1 / 10000\<close>: decoding is the quotient
  \<^verbatim>\<open>e / 10000.0\<close> and encoding is \<^verbatim>\<open>(int)(10000.0 * q + 0.5)\<close>, both in the arithmetic
  of \<^verbatim>\<open>double\<close>. Every theorem below holds for arbitrary \<open>dec\<close> and \<open>enc\<close>; these two are
  the instances at which concrete runs are evaluated.\<close>

definition decodeEvalue :: "nat \<Rightarrow> real" where
  "decodeEvalue e = ddiv (real e) 10000"

definition encodeEvalue :: "real \<Rightarrow> 16 word" where
  "encodeEvalue q = of_nat (nat \<lfloor>dadd (dmul 10000 q) (1 / 2)\<rfloor>)"

text \<open>Modelled from the spec: the class \<^verbatim>\<open>intervalList\<close> is not defined in the
  sources at hand. The spec (section 4.1) has the aggregator flatten the input ranges into
  non-overlapping sub-intervals covering the union of the inputs, each with the number of
  inputs covering it as depth and the sum of their weights as value. The sub-intervals are
  cut at the end points of the inputs, and the weights are added as \<^verbatim>\<open>double\<close>s in the
  order of the inputs.\<close>

definition endpoints :: "entry list \<Rightarrow> 32 word list" where
  "endpoints xs = sort (remdups (concat (map (\<lambda>(b, l, v). [b, b + l]) xs)))"

fun adjacent :: "32 word list \<Rightarrow> (32 word \<times> 32 word) list" where
  "adjacent (x # y # zs) = (x, y) # adjacent (y # zs)"
| "adjacent zs = []"

definition covering :: "entry list \<Rightarrow> 32 word \<Rightarrow> 32 word \<Rightarrow> entry list" where
  "covering xs lo hi = filter (\<lambda>(b, l, v). b \<le> lo \<and> hi \<le> b + l \<and> b \<le> b + l) xs"

definition intervalDepth :: "entry list \<Rightarrow> interval list" where
  "intervalDepth xs =
     map (\<lambda>(lo, hi). \<lparr> iv_lo = lo, iv_hi = hi,
                        iv_value = foldl dadd 0 (map (\<lambda>(b, l, v). v) (covering xs lo hi)),
                        iv_depth = of_nat (length (covering xs lo hi)) \<rparr>)
       (filter (\<lambda>(lo, hi). covering xs lo hi \<noteq> []) (adjacent (endpoints xs)))"

subsection \<open>Notions used in the statements\<close>

text \<open>The span that the constructor builds for an overlap when both profile indices are
  in range.\<close>

definition spanIn :: "readErrorEstimate list \<Rightarrow> 32 word \<Rightarrow> ESToverlap \<Rightarrow> ESToverlapSpan" where
  "spanIn prof iidMin ovl =
     spanOf ovl (seqLen (prof ! unat (ucast (a_iid ovl) - iidMin)))
                (seqLen (prof ! unat (b_iid_of ovl - iidMin)))"

text \<open>The discard test of lines 336 to 338 for one overlap: the span is built, the
  estimate is computed, and \<^verbatim>\<open>estError + ERATE_TOLERANCE < erate\<close> holds.\<close>

definition discardTest ::
  "(nat \<Rightarrow> real) \<Rightarrow> 32 word \<Rightarrow> readErrorEstimate list \<Rightarrow> ESToverlap \<Rightarrow> bool" where
  "discardTest dec iidMin prof ovl =
     (case ESToverlapSpan ovl prof iidMin of
        Inl e \<Rightarrow> False
      | Inr sp \<Rightarrow>
          (case computeEstimatedErate dec iidMin sp prof of
             Inl e \<Rightarrow> False
           | Inr estError \<Rightarrow> dadd estError ERATE_TOLERANCE < dec (unat (span_erate sp))))"

text \<open>The overlaps of read \<open>iid\<close>: the positions from \<^verbatim>\<open>overlapIndex[iid]\<close> up to
  \<^verbatim>\<open>overlapIndex[iid+1]\<close>.\<close>

definition slice :: "engine \<Rightarrow> nat \<Rightarrow> nat list" where
  "slice st iid = [unat (overlapIndex st ! iid) ..< unat (overlapIndex st ! (iid + 1))]"

text \<open>How the visit of the loop body relates an overlap \<open>ovl\<close> of the read \<open>iid\<close> to the
  same overlap \<open>ovl'\<close> afterwards: only the \<open>discarded\<close> bit may differ; it is set afterwards
  exactly when it was set before or the iteration is not the first and the discard test
  holds; and an overlap that was not discarded has passed the assertions on its span and,
  past iteration 0, has had its estimate computed.\<close>

definition visited ::
  "(nat \<Rightarrow> real) \<Rightarrow> 32 word \<Rightarrow> 32 word \<Rightarrow> 32 word \<Rightarrow> readErrorEstimate list
     \<Rightarrow> ESToverlap \<Rightarrow> ESToverlap \<Rightarrow> bool" where
  "visited dec iidMin iter iid prof ovl ovl' =
     (ovl' = ovl\<lparr>discarded := discarded ovl'\<rparr>
      \<and> ((discarded ovl' = 1)
           = (discarded ovl = 1 \<or> 0 < iter \<and> discardTest dec iidMin prof ovl))
      \<and> (discarded ovl \<noteq> 1 \<longrightarrow>
           ESToverlapSpan ovl prof iidMin = Inr (spanIn prof iidMin ovl)
           \<and> span_a_iid (spanIn prof iidMin ovl) = iid + iidMin
           \<and> a_beg (spanIn prof iidMin ovl) \<le> a_end (spanIn prof iidMin ovl)
           \<and> (0 < iter \<longrightarrow>
                a_beg (spanIn prof iidMin ovl) < a_end (spanIn prof iidMin ovl)
                \<and> b_beg (spanIn prof iidMin ovl) < b_end (spanIn prof iidMin ovl)
                \<and> (\<exists>est. computeEstimatedErate dec iidMin (spanIn prof iidMin ovl) prof
                            = Inr est))))"

text \<open>The overlaps of read \<open>iid\<close> that are not discarded, and the entries that
  \<^verbatim>\<open>eRateList.add\<close> receives for them.\<close>

definition survivors :: "engine \<Rightarrow> nat \<Rightarrow> nat list" where
  "survivors st iid = filter (\<lambda>j. discarded (overlaps st ! j) \<noteq> 1) (slice st iid)"

definition eRateListOf :: "(nat \<Rightarrow> real) \<Rightarrow> 32 word \<Rightarrow> engine \<Rightarrow> nat \<Rightarrow> entry list" where
  "eRateListOf dec iidMin st iid =
     map (\<lambda>j. entryOf dec (spanIn (readProfile st) iidMin (overlaps st ! j))) (survivors st iid)"

text \<open>Two profile arrays that agree on what the loop over the overlaps reads: the number
  of reads, each \<^verbatim>\<open>seqLen\<close> and each \<^verbatim>\<open>errorMeanS\<close>.\<close>

definition sameS :: "readErrorEstimate list \<Rightarrow> readErrorEstimate list \<Rightarrow> bool" where
  "sameS prof prof' =
     (length prof' = length prof
      \<and> (\<forall>k. seqLen (prof' ! k) = seqLen (prof ! k)
             \<and> errorMeanS (prof' ! k) = errorMeanS (prof ! k)))"

text \<open>What any number of work items of iteration \<open>iter\<close> can do to the state.\<close>

definition evolves :: "(nat \<Rightarrow> real) \<Rightarrow> 32 word \<Rightarrow> 32 word \<Rightarrow> engine \<Rightarrow> engine \<Rightarrow> bool" where
  "evolves dec iidMin iter st st' =
     (overlapIndex st' = overlapIndex st
      \<and> length (overlaps st') = length (overlaps st)
      \<and> sameS (readProfile st) (readProfile st')
      \<and> (\<forall>j. overlaps st' ! j = (overlaps st ! j)\<lparr>discarded := discarded (overlaps st' ! j)\<rparr>
             \<and> (discarded (overlaps st ! j) = 1 \<longrightarrow> discarded (overlaps st' ! j) = 1)
             \<and> (discarded (overlaps st' ! j) = 1 \<longrightarrow>
                  discarded (overlaps st ! j) = 1
                  \<or> 0 < iter \<and> discardTest dec iidMin (readProfile st) (overlaps st ! j))))"

text \<open>\<^verbatim>\<open>errorMeanS[e] - errorMeanS[b]\<close> for the read with profile index \<open>r\<close>, a difference
  of \<^verbatim>\<open>uint32\<close> values.\<close>

definition sumOverSpan :: "readErrorEstimate list \<Rightarrow> 32 word \<Rightarrow> 32 word \<Rightarrow> 32 word \<Rightarrow> 32 word" where
  "sumOverSpan prof r b e = errorMeanS (prof ! unat r) ! unat e - errorMeanS (prof ! unat r) ! unat b"

text \<open>The estimate as the spec words it: the decoded half of the sum of the two range
  sums, \<open>(sumOverSpan(a) + sumOverSpan(b)) / 2\<close>.\<close>

definition specEstimate ::
  "(nat \<Rightarrow> real) \<Rightarrow> 32 word \<Rightarrow> ESToverlapSpan \<Rightarrow> readErrorEstimate list \<Rightarrow> real" where
  "specEstimate dec iidMin sp prof =
     dec ((unat (sumOverSpan prof (span_a_iid sp - iidMin) (a_beg sp) (a_end sp))
           + unat (sumOverSpan prof (span_b_iid sp - iidMin) (b_beg sp) (b_end sp))) div 2)"


text \<open>What the bound on the end of a span asks of \<^verbatim>\<open>intervalList\<close>: the output
  intervals cover the input ranges (the spec, section 4.1), so that the end of every
  input range that is not empty lies at or before the end of some output interval.\<close>

definition aggCovers :: "(entry list \<Rightarrow> interval list) \<Rightarrow> bool" where
  "aggCovers agg =
     (\<forall>el b l v. (b, l, v) \<in> set el \<longrightarrow> 0 < l \<longrightarrow> b \<le> b + l \<longrightarrow>
        (\<exists>iv\<in>set (agg el). b + l \<le> iv_hi iv))"

text \<open>The lock-step check of \<^verbatim>\<open>outputOverlaps\<close> on a native record and a packed overlap,
  and the records that the output pass keeps: those whose packed overlap is not
  discarded, in the order of the stream.\<close>

definition idsAgree :: "ovOverlap \<Rightarrow> ESToverlap \<Rightarrow> bool" where
  "idsAgree r ovl = (ovl_a_iid r = ucast (a_iid ovl) \<and> ovl_b_iid r = b_iid_of ovl)"

definition retained :: "ESToverlap list \<Rightarrow> ovOverlap list \<Rightarrow> ovOverlap list" where
  "retained ovs rs = map fst (filter (\<lambda>(r, ovl). discarded ovl \<noteq> 1) (zip rs ovs))"

subsection \<open>Concrete inputs\<close>

text \<open>A native overlap between reads 5 and 70000 (high part 4, low part 4464), with hangs
  \<open>-3\<close> and 100, reverse orientation and the encoded error rate 200, which \<^verbatim>\<open>erate()\<close>
  returns decoded.\<close>

definition ovl0 :: ovOverlap where
  "ovl0 = \<lparr> ovl_a_iid = 5, ovl_b_iid = 70000, ovl_a_hang = - 3, ovl_b_hang = 100,
            ovl_evalue = 200, ovl_erate = decodeEvalue 200, ovl_flipped = True \<rparr>"

text \<open>The weights that overlaps with the encoded error rates 200, 4000 and 301 hand to
  the interval list: half the decoded rate, about 0.01, 0.2 and 0.01505.\<close>

definition w200 :: real where
  "w200 = ddiv (decodeEvalue 200) 2"

definition w4000 :: real where
  "w4000 = ddiv (decodeEvalue 4000) 2"

definition w301 :: real where
  "w301 = ddiv (decodeEvalue 301) 2"

text \<open>A packed overlap that is not discarded and not flipped.\<close>

definition mkOvl :: "23 word \<Rightarrow> 32 word \<Rightarrow> 17 word \<Rightarrow> 17 word \<Rightarrow> 12 word \<Rightarrow> ESToverlap" where
  "mkOvl a b ah bh e =
     \<lparr> a_iid = a, b_iid_hi = ucast (drop_bit 14 b), b_iid_lo = ucast b,
       a_hang = ah, b_hang = bh, erate = e, flipped = 0, discarded = 0 \<rparr>"

text \<open>A run on the reads 1 and 2, both of length 4 (\<open>iidMin = 1\<close>, \<open>numIIDs = 2\<close>). Read 1
  has two overlaps with read 2, one over all of both reads with encoded error rate 200 and
  one from its base 1 on with encoded error rate 4000; read 2 has one overlap with read 1,
  over all of both reads, with encoded error rate 200. \<open>run0\<close> is the state before the
  first iteration: the arrays are freshly allocated, so their content is whatever the
  memory holds. \<open>run1\<close>, \<open>run2\<close> are the states after iterations 0 and 1.\<close>

definition run0 :: engine where
  "run0 = \<lparr> overlapIndex = [0, 2, 3],
            overlaps = [mkOvl 1 2 0 0 200, mkOvl 1 2 1 0 4000, mkOvl 2 1 0 0 200],
            readProfile =
              [\<lparr> seqLen = 4, errorMeanS = [7, 7, 7, 7, 4300], errorMeanU = [9, 9, 9, 9, 9] \<rparr>,
               \<lparr> seqLen = 4, errorMeanS = [7, 7, 7, 7, 400], errorMeanU = [9, 9, 9, 9, 9] \<rparr>] \<rparr>"

definition run1 :: engine where
  "run1 = \<lparr> overlapIndex = [0, 2, 3],
            overlaps = [mkOvl 1 2 0 0 200, mkOvl 1 2 1 0 4000, mkOvl 2 1 0 0 200],
            readProfile =
              [\<lparr> seqLen = 4, errorMeanS = [100, 1150, 2200, 3250, 4300],
                 errorMeanU = [100, 1050, 1050, 1050, 0] \<rparr>,
               \<lparr> seqLen = 4, errorMeanS = [100, 200, 300, 400, 400],
                 errorMeanU = [100, 100, 100, 100, 0] \<rparr>] \<rparr>"

definition run2 :: engine where
  "run2 = \<lparr> overlapIndex = [0, 2, 3],
            overlaps = [mkOvl 1 2 0 0 200, (mkOvl 1 2 1 0 4000)\<lparr>discarded := 1\<rparr>,
                        mkOvl 2 1 0 0 200],
            readProfile =
              [\<lparr> seqLen = 4, errorMeanS = [100, 200, 300, 400, 4300],
                 errorMeanU = [100, 100, 100, 100, 0] \<rparr>,
               \<lparr> seqLen = 4, errorMeanS = [100, 200, 300, 400, 400],
                 errorMeanU = [100, 100, 100, 100, 0] \<rparr>] \<rparr>"

text \<open>The states between the work items of iteration 0.\<close>

definition run0a :: engine where
  "run0a = \<lparr> overlapIndex = [0, 2, 3],
            overlaps = [mkOvl 1 2 0 0 200, mkOvl 1 2 1 0 4000, mkOvl 2 1 0 0 200],
            readProfile =
              [\<lparr> seqLen = 4, errorMeanS = [7, 7, 7, 7, 4300], errorMeanU = [100, 1050, 1050, 1050, 0] \<rparr>,
               \<lparr> seqLen = 4, errorMeanS = [7, 7, 7, 7, 400], errorMeanU = [9, 9, 9, 9, 9] \<rparr>] \<rparr>"

definition run0b :: engine where
  "run0b = \<lparr> overlapIndex = [0, 2, 3],
            overlaps = [mkOvl 1 2 0 0 200, mkOvl 1 2 1 0 4000, mkOvl 2 1 0 0 200],
            readProfile =
              [\<lparr> seqLen = 4, errorMeanS = [7, 7, 7, 7, 4300], errorMeanU = [100, 1050, 1050, 1050, 0] \<rparr>,
               \<lparr> seqLen = 4, errorMeanS = [7, 7, 7, 7, 400], errorMeanU = [100, 100, 100, 100, 0] \<rparr>] \<rparr>"

text \<open>Two reads of length 1 whose prefix sums rise by 1 from index 0 to index 1, and the
  span of an overlap over all of both.\<close>

definition oddProfile :: "readErrorEstimate list" where
  "oddProfile = [\<lparr> seqLen = 1, errorMeanS = [3, 4], errorMeanU = [3, 0] \<rparr>,
                 \<lparr> seqLen = 1, errorMeanS = [3, 4], errorMeanU = [3, 0] \<rparr>]"

definition oddSpan :: ESToverlapSpan where
  "oddSpan = spanOf (mkOvl 1 2 0 0 200) 1 1"

text \<open>The state between the first and the second pass of iteration 1.\<close>

definition run1a :: engine where
  "run1a = \<lparr> overlapIndex = [0, 2, 3],
            overlaps = [mkOvl 1 2 0 0 200, (mkOvl 1 2 1 0 4000)\<lparr>discarded := 1\<rparr>,
                        mkOvl 2 1 0 0 200],
            readProfile =
              [\<lparr> seqLen = 4, errorMeanS = [100, 1150, 2200, 3250, 4300],
                 errorMeanU = [100, 100, 100, 100, 0] \<rparr>,
               \<lparr> seqLen = 4, errorMeanS = [100, 200, 300, 400, 400],
                 errorMeanU = [100, 100, 100, 100, 0] \<rparr>] \<rparr>"

text \<open>The native records of the three overlaps of the run, as the overlap store streams
  them in two blocks.\<close>

definition rec0 :: ovOverlap where
  "rec0 = \<lparr> ovl_a_iid = 1, ovl_b_iid = 2, ovl_a_hang = 0, ovl_b_hang = 0,
            ovl_evalue = 200, ovl_erate = decodeEvalue 200, ovl_flipped = False \<rparr>"

definition rec1 :: ovOverlap where
  "rec1 = \<lparr> ovl_a_iid = 1, ovl_b_iid = 2, ovl_a_hang = 1, ovl_b_hang = 0,
            ovl_evalue = 4000, ovl_erate = decodeEvalue 4000, ovl_flipped = False \<rparr>"

definition rec2 :: ovOverlap where
  "rec2 = \<lparr> ovl_a_iid = 2, ovl_b_iid = 1, ovl_a_hang = 0, ovl_b_hang = 0,
            ovl_evalue = 200, ovl_erate = decodeEvalue 200, ovl_flipped = False \<rparr>"

definition store0 :: "ovOverlap list list" where
  "store0 = [[rec0, rec1], [rec2]]"

text \<open>A run on read 1 of length 4 and read 2 of length 2, with one overlap of read 1 whose
  hangs are \<open>-3\<close> and \<open>-1\<close>: on read 1 it spans the bases 0 to 3, on read 2 it begins at 3
  and ends at 2. \<open>bad0\<close> is the state before iteration 0 and \<open>bad1\<close> the state after it.\<close>

definition bad0 :: engine where
  "bad0 = \<lparr> overlapIndex = [0, 1, 1],
            overlaps = [mkOvl 1 2 (- 3) (- 1) 200],
            readProfile =
              [\<lparr> seqLen = 4, errorMeanS = [7, 7, 7, 7, 7], errorMeanU = [9, 9, 9, 9, 9] \<rparr>,
               \<lparr> seqLen = 2, errorMeanS = [7, 7, 7], errorMeanU = [9, 9, 9] \<rparr>] \<rparr>"

definition bad0a :: engine where
  "bad0a = \<lparr> overlapIndex = [0, 1, 1],
            overlaps = [mkOvl 1 2 (- 3) (- 1) 200],
            readProfile =
              [\<lparr> seqLen = 4, errorMeanS = [7, 7, 7, 7, 7], errorMeanU = [100, 100, 100, 0, 0] \<rparr>,
               \<lparr> seqLen = 2, errorMeanS = [7, 7, 7], errorMeanU = [9, 9, 9] \<rparr>] \<rparr>"

definition bad0b :: engine where
  "bad0b = \<lparr> overlapIndex = [0, 1, 1],
            overlaps = [mkOvl 1 2 (- 3) (- 1) 200],
            readProfile =
              [\<lparr> seqLen = 4, errorMeanS = [7, 7, 7, 7, 7], errorMeanU = [100, 100, 100, 0, 0] \<rparr>,
               \<lparr> seqLen = 2, errorMeanS = [7, 7, 7], errorMeanU = [0, 0, 0] \<rparr>] \<rparr>"

definition bad1 :: engine where
  "bad1 = \<lparr> overlapIndex = [0, 1, 1],
            overlaps = [mkOvl 1 2 (- 3) (- 1) 200],
            readProfile =
              [\<lparr> seqLen = 4, errorMeanS = [100, 200, 300, 300, 7],
                 errorMeanU = [100, 100, 100, 0, 0] \<rparr>,
               \<lparr> seqLen = 2, errorMeanS = [0, 0, 7], errorMeanU = [0, 0, 0] \<rparr>] \<rparr>"

text \<open>A run on the reads 1 and 2, both of length 1, with one overlap of read 1 over the
  single base of both reads, with encoded error rate 301. \<open>odd0\<close> is the state before
  iteration 0; the cells at index \<open>seqLen\<close> of the two prefix arrays, which no pass
  writes, hold 152 and 1 from the allocation. \<open>odd0a\<close> and \<open>odd0b\<close> are the states after
  the work items of iteration 0, \<open>odd1\<close> is the state after iteration 0, \<open>odd1a\<close> the
  state after the first pass of iteration 1 and \<open>odd2\<close> the state after iteration 1.\<close>

definition odd0 :: engine where
  "odd0 = \<lparr> overlapIndex = [0, 1, 1],
            overlaps = [mkOvl 1 2 0 0 301],
            readProfile =
              [\<lparr> seqLen = 1, errorMeanS = [7, 152], errorMeanU = [9, 9] \<rparr>,
               \<lparr> seqLen = 1, errorMeanS = [7, 1], errorMeanU = [9, 9] \<rparr>] \<rparr>"

definition odd0a :: engine where
  "odd0a = \<lparr> overlapIndex = [0, 1, 1],
            overlaps = [mkOvl 1 2 0 0 301],
            readProfile =
              [\<lparr> seqLen = 1, errorMeanS = [7, 152], errorMeanU = [151, 0] \<rparr>,
               \<lparr> seqLen = 1, errorMeanS = [7, 1], errorMeanU = [9, 9] \<rparr>] \<rparr>"

definition odd0b :: engine where
  "odd0b = \<lparr> overlapIndex = [0, 1, 1],
            overlaps = [mkOvl 1 2 0 0 301],
            readProfile =
              [\<lparr> seqLen = 1, errorMeanS = [7, 152], errorMeanU = [151, 0] \<rparr>,
               \<lparr> seqLen = 1, errorMeanS = [7, 1], errorMeanU = [0, 0] \<rparr>] \<rparr>"

definition odd1 :: engine where
  "odd1 = \<lparr> overlapIndex = [0, 1, 1],
            overlaps = [mkOvl 1 2 0 0 301],
            readProfile =
              [\<lparr> seqLen = 1, errorMeanS = [151, 152], errorMeanU = [151, 0] \<rparr>,
               \<lparr> seqLen = 1, errorMeanS = [0, 1], errorMeanU = [0, 0] \<rparr>] \<rparr>"

definition odd1a :: engine where
  "odd1a = \<lparr> overlapIndex = [0, 1, 1],
            overlaps = [(mkOvl 1 2 0 0 301)\<lparr>discarded := 1\<rparr>],
            readProfile =
              [\<lparr> seqLen = 1, errorMeanS = [151, 152], errorMeanU = [0, 0] \<rparr>,
               \<lparr> seqLen = 1, errorMeanS = [0, 1], errorMeanU = [0, 0] \<rparr>] \<rparr>"

definition odd2 :: engine where
  "odd2 = \<lparr> overlapIndex = [0, 1, 1],
            overlaps = [(mkOvl 1 2 0 0 301)\<lparr>discarded := 1\<rparr>],
            readProfile =
              [\<lparr> seqLen = 1, errorMeanS = [0, 152], errorMeanU = [0, 0] \<rparr>,
               \<lparr> seqLen = 1, errorMeanS = [0, 1], errorMeanU = [0, 0] \<rparr>] \<rparr>"

text \<open>A run on read 1 of length 4 and read 2 of length 2, with three overlaps of read 1:
  one with the hangs \<open>-3\<close> and \<open>-1\<close>, which begins at 3 and ends at 2 on read 2; one with
  the hangs 0 and 3, whose end on read 2 is \<open>2 - 3\<close> in \<^verbatim>\<open>uint32\<close>; and one with the
  hangs 4 and 0, which begins and ends at 4 on read 1. \<open>loose0\<close> is the state before
  iteration 0, \<open>loose0a\<close> and \<open>loose0b\<close> are the states after its two work items, and
  \<open>loose1\<close> is the state after it.\<close>

definition loose0 :: engine where
  "loose0 = \<lparr> overlapIndex = [0, 3, 3],
            overlaps = [mkOvl 1 2 (- 3) (- 1) 200, mkOvl 1 2 0 3 200, mkOvl 1 2 4 0 200],
            readProfile =
              [\<lparr> seqLen = 4, errorMeanS = [7, 7, 7, 7, 7], errorMeanU = [9, 9, 9, 9, 9] \<rparr>,
               \<lparr> seqLen = 2, errorMeanS = [7, 7, 7], errorMeanU = [9, 9, 9] \<rparr>] \<rparr>"

definition loose0a :: engine where
  "loose0a = \<lparr> overlapIndex = [0, 3, 3],
            overlaps = [mkOvl 1 2 (- 3) (- 1) 200, mkOvl 1 2 0 3 200, mkOvl 1 2 4 0 200],
            readProfile =
              [\<lparr> seqLen = 4, errorMeanS = [7, 7, 7, 7, 7], errorMeanU = [100, 100, 100, 100, 0] \<rparr>,
               \<lparr> seqLen = 2, errorMeanS = [7, 7, 7], errorMeanU = [9, 9, 9] \<rparr>] \<rparr>"

definition loose0b :: engine where
  "loose0b = \<lparr> overlapIndex = [0, 3, 3],
            overlaps = [mkOvl 1 2 (- 3) (- 1) 200, mkOvl 1 2 0 3 200, mkOvl 1 2 4 0 200],
            readProfile =
              [\<lparr> seqLen = 4, errorMeanS = [7, 7, 7, 7, 7], errorMeanU = [100, 100, 100, 100, 0] \<rparr>,
               \<lparr> seqLen = 2, errorMeanS = [7, 7, 7], errorMeanU = [0, 0, 0] \<rparr>] \<rparr>"

definition loose1 :: engine where
  "loose1 = \<lparr> overlapIndex = [0, 3, 3],
            overlaps = [mkOvl 1 2 (- 3) (- 1) 200, mkOvl 1 2 0 3 200, mkOvl 1 2 4 0 200],
            readProfile =
              [\<lparr> seqLen = 4, errorMeanS = [100, 200, 300, 400, 7],
                 errorMeanU = [100, 100, 100, 100, 0] \<rparr>,
               \<lparr> seqLen = 2, errorMeanS = [0, 0, 7], errorMeanU = [0, 0, 0] \<rparr>] \<rparr>"

section \<open>Properties\<close>

subsection \<open>Values of the arithmetic of doubles\<close>

text \<open>The values of the \<^verbatim>\<open>double\<close> operations that the concrete runs meet, computed
  from the definition of the rounding.\<close>

lemmas double_defs = dadd_def ddiv_def dmul_def roundDouble_def binade_def pow2_def
  roundEven_def compute_bitlen Let_def decodeEvalue_def ERATE_TOLERANCE_def w200_def w4000_def
  w301_def

lemma mean_one: "0 \<le> ddiv (dadd 0 w200) 1 \<and> ddiv (dadd 0 w200) 1 \<le> 1"
  by (simp add: double_defs)

lemma enc_one: "encodeEvalue (ddiv (dadd 0 w200) 1) = 100"
  by (simp add: encodeEvalue_def double_defs)

lemma mean_two:
  "0 \<le> ddiv (dadd (dadd 0 w200) w4000) 2 \<and> ddiv (dadd (dadd 0 w200) w4000) 2 \<le> 1"
  by (simp add: double_defs)

lemma enc_two: "encodeEvalue (ddiv (dadd (dadd 0 w200) w4000) 2) = 1050"
  by (simp add: encodeEvalue_def double_defs)

lemma mean_301: "0 \<le> ddiv (dadd 0 w301) 1 \<and> ddiv (dadd 0 w301) 1 \<le> 1"
  by (simp add: double_defs)

lemma enc_301: "encodeEvalue (ddiv (dadd 0 w301) 1) = 151"
  by (simp add: encodeEvalue_def double_defs)

lemma drop_301: "dadd (decodeEvalue 0) ERATE_TOLERANCE < decodeEvalue 301"
  by (simp add: double_defs)

lemma spec_301:
  "\<not> dadd (decodeEvalue 1) ERATE_TOLERANCE < decodeEvalue 301
   \<and> \<not> decodeEvalue 1 + 3 / 100 < decodeEvalue 301"
  by (simp add: double_defs)

lemma mean_pair:
  "0 \<le> ddiv (dadd (dadd 0 w200) w200) 2 \<and> ddiv (dadd (dadd 0 w200) w200) 2 \<le> 1"
  by (simp add: double_defs)

lemma enc_pair: "encodeEvalue (ddiv (dadd (dadd 0 w200) w200) 2) = 100"
  by (simp add: encodeEvalue_def double_defs)

lemma keep_200: "\<not> dadd (decodeEvalue 2250) ERATE_TOLERANCE < decodeEvalue 200"
  by (simp add: double_defs)

lemma drop_4000: "dadd (decodeEvalue 1725) ERATE_TOLERANCE < decodeEvalue 4000"
  by (simp add: double_defs)

subsection \<open>Words\<close>

lemma sint_hang_bounds: "- (2 ^ 16) \<le> sint (h :: 17 word) \<and> sint h < 2 ^ 16"
  using sint_ge [of h] sint_lt [of h] by simp

lemma uint_scast_hang: "uint (scast (h :: 17 word) :: 32 word) = sint h mod 2 ^ 32"
  unfolding scast_eq uint_word_of_int by simp

lemma uint_plus_scast:
  "uint ((a :: 32 word) + scast (h :: 17 word)) = (uint a + sint h) mod 2 ^ 32"
  unfolding uint_word_ariths uint_scast_hang by (simp add: mod_simps)

lemma uint_minus_scast:
  "uint ((a :: 32 word) - scast (h :: 17 word)) = (uint a - sint h) mod 2 ^ 32"
  unfolding uint_word_ariths uint_scast_hang by (simp add: mod_simps)

lemma uint_neg_scast: "uint (- scast (h :: 17 word) :: 32 word) = (- sint h) mod 2 ^ 32"
  unfolding uint_word_ariths uint_scast_hang by (simp add: mod_simps)

lemma a_iid_roundtrip:
  assumes "(x :: 32 word) < 2 ^ 23"
  shows "(ucast (ucast x :: 23 word) :: 32 word) = x"
proof -
  have "x = take_bit 23 x"
    using assms by (simp add: less_mask_eq take_bit_eq_mask)
  moreover have "(ucast (ucast (take_bit 23 x) :: 23 word) :: 32 word) = take_bit 23 x"
    by (rule bit_word_eqI) (auto simp add: bit_simps)
  ultimately show ?thesis by simp
qed

lemma b_iid_roundtrip:
  assumes "(b :: 32 word) < 2 ^ 23"
  shows "push_bit 14 (ucast (ucast (drop_bit 14 b AND 0x1ff) :: 9 word))
           OR ucast (ucast (drop_bit 0 b AND 0x3fff) :: 14 word) = b"
proof -
  have b: "b = take_bit 23 b"
    using assms by (simp add: less_mask_eq take_bit_eq_mask)
  have m1: "(0x1ff :: 32 word) = mask 9" by (simp add: mask_eq_exp_minus_1)
  have m2: "(0x3fff :: 32 word) = mask 14" by (simp add: mask_eq_exp_minus_1)
  have "push_bit 14 (ucast (ucast (drop_bit 14 (take_bit 23 b) AND mask 9) :: 9 word))
          OR ucast (ucast (drop_bit 0 (take_bit 23 b) AND mask 14) :: 14 word) = take_bit 23 b"
    by (rule bit_word_eqI) (auto simp add: bit_simps)
  then show ?thesis unfolding m1 m2 using b by simp
qed

lemma hang_roundtrip:
  assumes "- (2 ^ 16) \<le> sint (h :: 32 word)" "sint h < 2 ^ 16"
  shows "sint (scast h :: 17 word) = sint h"
  using assms by (simp add: signed_scast_eq signed_take_bit_int_eq_self)

subsection \<open>Loops\<close>

lemma forEach_append:
  "forEach f (xs @ ys) s =
     (case forEach f xs s of Inl e \<Rightarrow> Inl e | Inr s' \<Rightarrow> forEach f ys s')"
  by (induction xs arbitrary: s) (auto split: sum.splits)

text \<open>A reflexive and transitive relation that every successful round establishes
  holds between the states before and after the loop.\<close>

lemma forEach_rel:
  assumes step: "\<And>i s s'. i \<in> set xs \<Longrightarrow> f i s = Inr s' \<Longrightarrow> R s s'"
    and refl: "\<And>s. R s s"
    and trans: "\<And>a b c. R a b \<Longrightarrow> R b c \<Longrightarrow> R a c"
    and run: "forEach f xs s = Inr s'"
  shows "R s s'"
  using step run
proof (induction xs arbitrary: s)
  case Nil
  then show ?case using refl by simp
next
  case (Cons x xs)
  from Cons.prems(2) obtain s1 where 1: "f x s = Inr s1" and 2: "forEach f xs s1 = Inr s'"
    by (auto split: sum.splits)
  have "R s s1" using Cons.prems(1) [of x s s1] 1 by simp
  moreover have "R s1 s'"
  proof (rule Cons.IH [OF _ 2])
    fix i t t' assume "i \<in> set xs" "f i t = Inr t'"
    then show "R t t'" using Cons.prems(1) [of i t t'] by simp
  qed
  ultimately show ?case using trans by blast
qed

text \<open>A successful loop has run the round of each of its elements.\<close>

lemma forEach_mem:
  assumes step: "\<And>i s s'. f i s = Inr s' \<Longrightarrow> R s s'"
    and refl: "\<And>s. R s s"
    and trans: "\<And>a b c. R a b \<Longrightarrow> R b c \<Longrightarrow> R a c"
    and run: "forEach f xs s = Inr s'"
    and mem: "x \<in> set xs"
  shows "\<exists>sa sb. R s sa \<and> f x sa = Inr sb \<and> R sb s'"
proof -
  from mem obtain ys zs where xs: "xs = ys @ x # zs"
    by (auto simp: in_set_conv_decomp)
  from run obtain sa where a: "forEach f ys s = Inr sa" and r: "forEach f (x # zs) sa = Inr s'"
    unfolding xs forEach_append by (auto split: sum.splits)
  from r obtain sb where b: "f x sa = Inr sb" and c: "forEach f zs sb = Inr s'"
    by (auto split: sum.splits)
  have "R s sa"
    by (rule forEach_rel [where f = f and R = R, OF _ refl trans a]) (auto intro: step)
  moreover have "R sb s'"
    by (rule forEach_rel [where f = f and R = R, OF _ refl trans c]) (auto intro: step)
  ultimately show ?thesis using b by blast
qed

lemma bit1_cases: "(x :: 1 word) = 0 \<or> x = 1"
proof -
  have "unat x < 2" using unsigned_less [of x, where ?'a = nat] by simp
  then have "unat x = 0 \<or> unat x = 1" by linarith
  then show ?thesis by (simp add: word_eq_iff_unsigned [where ?'a = nat])
qed

subsection \<open>The loop over the overlaps of a read\<close>

lemma ESToverlapSpan_Inr:
  "ESToverlapSpan ovl prof iidMin = Inr sp \<Longrightarrow> sp = spanIn prof iidMin ovl"
  by (auto simp: ESToverlapSpan_def spanIn_def Let_def split: if_splits)

lemma computeEstimatedErate_Inr:
  assumes "computeEstimatedErate dec iidMin sp prof = Inr est"
  shows "a_beg sp < a_end sp \<and> b_beg sp < b_end sp"
  using assms by (auto simp: computeEstimatedErate_def Let_def split: if_splits sum.splits)

lemma discarded_update_same:
  "discarded (ovs ! oo) = d \<Longrightarrow> ovs[oo := (ovs ! oo)\<lparr>discarded := d\<rparr>] = ovs"
  by (metis ESToverlap.update_convs(8) ESToverlap.surjective list_update_id
      ESToverlap.select_convs(8) ESToverlap.equality)

lemma overlapBody_Inr:
  assumes "overlapBody dec iidMin iter iid oo (st, el) = Inr (st', el')"
  shows "oo < length (overlaps st)
    \<and> overlapIndex st' = overlapIndex st \<and> readProfile st' = readProfile st
    \<and> overlaps st'
        = (overlaps st)[oo := (overlaps st ! oo)\<lparr>discarded := discarded (overlaps st' ! oo)\<rparr>]
    \<and> ((discarded (overlaps st' ! oo) = 1)
        = (discarded (overlaps st ! oo) = 1
           \<or> 0 < iter \<and> discardTest dec iidMin (readProfile st) (overlaps st ! oo)))
    \<and> el' = el @ (if discarded (overlaps st' ! oo) = 1 then []
                   else [entryOf dec (spanIn (readProfile st) iidMin (overlaps st ! oo))])"
  using assms
  by (auto simp: overlapBody_def Let_def discardTest_def discarded_update_same
      dest!: ESToverlapSpan_Inr split: if_splits sum.splits)

lemma overlapBody_checks:
  assumes "overlapBody dec iidMin iter iid oo (st, el) = Inr (st', el')"
    and "discarded (overlaps st ! oo) \<noteq> 1"
  shows "ESToverlapSpan (overlaps st ! oo) (readProfile st) iidMin
           = Inr (spanIn (readProfile st) iidMin (overlaps st ! oo))
     \<and> span_a_iid (spanIn (readProfile st) iidMin (overlaps st ! oo)) = iid + iidMin
     \<and> a_beg (spanIn (readProfile st) iidMin (overlaps st ! oo))
         \<le> a_end (spanIn (readProfile st) iidMin (overlaps st ! oo))
     \<and> (0 < iter \<longrightarrow>
          a_beg (spanIn (readProfile st) iidMin (overlaps st ! oo))
            < a_end (spanIn (readProfile st) iidMin (overlaps st ! oo))
          \<and> b_beg (spanIn (readProfile st) iidMin (overlaps st ! oo))
            < b_end (spanIn (readProfile st) iidMin (overlaps st ! oo))
          \<and> (\<exists>est. computeEstimatedErate dec iidMin
                      (spanIn (readProfile st) iidMin (overlaps st ! oo)) (readProfile st)
                    = Inr est))"
proof -
  from assms obtain sp where
    sp: "ESToverlapSpan (overlaps st ! oo) (readProfile st) iidMin = Inr sp"
    and id: "span_a_iid sp = iid + iidMin" and le: "a_beg sp \<le> a_end sp"
    and est: "0 < iter \<longrightarrow> (\<exists>est. computeEstimatedErate dec iidMin sp (readProfile st) = Inr est)"
    by (auto simp: overlapBody_def Let_def split: if_splits sum.splits)
  note eq = ESToverlapSpan_Inr [OF sp]
  from est have "0 < iter \<longrightarrow> a_beg sp < a_end sp \<and> b_beg sp < b_end sp"
    using computeEstimatedErate_Inr by blast
  with sp id le est show ?thesis unfolding eq by blast
qed

lemma overlapBody_visited:
  assumes "overlapBody dec iidMin iter iid oo (st, el) = Inr (st', el')"
  shows "visited dec iidMin iter iid (readProfile st) (overlaps st ! oo) (overlaps st' ! oo)"
proof -
  note b = overlapBody_Inr [OF assms]
  have 1: "overlaps st' ! oo = (overlaps st ! oo)\<lparr>discarded := discarded (overlaps st' ! oo)\<rparr>"
    using b by (metis nth_list_update_eq)
  show ?thesis
    unfolding visited_def using 1 b overlapBody_checks [OF assms] by blast
qed

lemma gather_loop:
  assumes "forEach (overlapBody dec iidMin iter iid) js (st, el) = Inr (st', el')"
    and "distinct js"
  shows "overlapIndex st' = overlapIndex st \<and> readProfile st' = readProfile st
     \<and> length (overlaps st') = length (overlaps st)
     \<and> (\<forall>j. j \<notin> set js \<longrightarrow> overlaps st' ! j = overlaps st ! j)
     \<and> (\<forall>j\<in>set js. j < length (overlaps st)
           \<and> visited dec iidMin iter iid (readProfile st) (overlaps st ! j) (overlaps st' ! j))
     \<and> el' = el @ map (\<lambda>j. entryOf dec (spanIn (readProfile st) iidMin (overlaps st ! j)))
                    (filter (\<lambda>j. discarded (overlaps st' ! j) \<noteq> 1) js)"
  using assms
proof (induction js arbitrary: st el)
  case Nil
  then show ?case by simp
next
  case (Cons j js)
  from Cons.prems(1) obtain p where body0: "overlapBody dec iidMin iter iid j (st, el) = Inr p"
    and rest0: "forEach (overlapBody dec iidMin iter iid) js p = Inr (st', el')"
    by (auto split: sum.splits)
  obtain s1 e1 where p: "p = (s1, e1)" by (cases p)
  note body = body0 [unfolded p] and rest = rest0 [unfolded p]
  from Cons.prems(2) have dj: "j \<notin> set js" and djs: "distinct js" by simp_all
  note b = overlapBody_Inr [OF body]
  note v = overlapBody_visited [OF body]
  note ih = Cons.IH [OF rest djs]
  have len1: "length (overlaps s1) = length (overlaps st)"
    using b by (metis length_list_update)
  have same1: "\<And>k. k \<noteq> j \<Longrightarrow> overlaps s1 ! k = overlaps st ! k"
    using b by (metis nth_list_update_neq)
  have keepj: "overlaps st' ! j = overlaps s1 ! j"
    using ih dj by blast
  have 1: "overlapIndex st' = overlapIndex st" using ih b by simp
  have 2: "readProfile st' = readProfile st" using ih b by simp
  have 3: "length (overlaps st') = length (overlaps st)" using ih len1 by simp
  have 4: "\<forall>k. k \<notin> set (j # js) \<longrightarrow> overlaps st' ! k = overlaps st ! k"
    using ih same1 by simp
  have 5: "\<forall>k\<in>set (j # js). k < length (overlaps st)
           \<and> visited dec iidMin iter iid (readProfile st) (overlaps st ! k) (overlaps st' ! k)"
  proof
    fix k assume k: "k \<in> set (j # js)"
    show "k < length (overlaps st)
           \<and> visited dec iidMin iter iid (readProfile st) (overlaps st ! k) (overlaps st' ! k)"
    proof (cases "k = j")
      case True
      then show ?thesis using b v keepj by simp
    next
      case False
      with k have kjs: "k \<in> set js" by simp
      from ih kjs have "k < length (overlaps s1)
         \<and> visited dec iidMin iter iid (readProfile s1) (overlaps s1 ! k) (overlaps st' ! k)"
        by blast
      then show ?thesis using len1 same1 [OF False] b by simp
    qed
  qed
  have m: "map (\<lambda>k. entryOf dec (spanIn (readProfile s1) iidMin (overlaps s1 ! k)))
             (filter (\<lambda>k. discarded (overlaps st' ! k) \<noteq> 1) js)
         = map (\<lambda>k. entryOf dec (spanIn (readProfile st) iidMin (overlaps st ! k)))
             (filter (\<lambda>k. discarded (overlaps st' ! k) \<noteq> 1) js)"
  proof (rule map_cong [OF refl])
    fix k assume "k \<in> set (filter (\<lambda>k. discarded (overlaps st' ! k) \<noteq> 1) js)"
    then have "k \<noteq> j" using dj by auto
    then show "entryOf dec (spanIn (readProfile s1) iidMin (overlaps s1 ! k))
        = entryOf dec (spanIn (readProfile st) iidMin (overlaps st ! k))"
      using same1 b by simp
  qed
  have e1: "e1 = el @ (if discarded (overlaps st' ! j) = 1 then []
                   else [entryOf dec (spanIn (readProfile st) iidMin (overlaps st ! j))])"
    using b keepj by simp
  have el': "el' = e1 @ map (\<lambda>k. entryOf dec (spanIn (readProfile s1) iidMin (overlaps s1 ! k)))
                    (filter (\<lambda>k. discarded (overlaps st' ! k) \<noteq> 1) js)"
    using ih by blast
  have 6: "el' = el @ map (\<lambda>k. entryOf dec (spanIn (readProfile st) iidMin (overlaps st ! k)))
                    (filter (\<lambda>k. discarded (overlaps st' ! k) \<noteq> 1) (j # js))"
    unfolding el' m e1 by simp
  from 1 2 3 4 5 6 show ?case by blast
qed

subsection \<open>The work item of a read\<close>

lemma fold_update_length:
  "length (fold (\<lambda>pp U. U[pp := v]) ps U) = length U"
  by (induction ps arbitrary: U) auto

lemma fold_update_nth:
  "fold (\<lambda>pp U. U[pp := v]) ps U ! k = (if k \<in> set ps \<and> k < length U then v else U ! k)"
proof (induction ps arbitrary: U)
  case Nil
  then show ?case by simp
next
  case (Cons a ps)
  have "U[a := v] ! k = (if a = k \<and> k < length U then v else U ! k)"
  proof (cases "a = k")
    case True
    then show ?thesis by (cases "k < length U") (simp_all add: list_update_beyond)
  next
    case False
    then show ?thesis by simp
  qed
  then show ?case using Cons.IH [of "U[a := v]"] by auto
qed

lemma unpackBody_Inr:
  assumes "unpackBody enc len iv U0 = Inr U"
  shows "length U = length U0 \<and> iv_hi iv \<le> len \<and> 0 \<le> eVal iv \<and> eVal iv \<le> 1
     \<and> (\<forall>pp. U ! pp = (if unat (iv_lo iv) \<le> pp \<and> pp < unat (iv_hi iv) \<and> pp < length U0
                        then enc (eVal iv) else U0 ! pp))"
  using assms
  by (auto simp: unpackBody_def fold_update_length fold_update_nth split: if_splits)

lemma unpack_loop:
  assumes "forEach (unpackBody enc len) ivs U0 = Inr U"
  shows "length U = length U0
     \<and> (\<forall>iv\<in>set ivs. iv_hi iv \<le> len \<and> 0 \<le> eVal iv \<and> eVal iv \<le> 1)
     \<and> (\<forall>pp. U ! pp = U0 ! pp
            \<or> (\<exists>iv\<in>set ivs. unat (iv_lo iv) \<le> pp \<and> pp < unat (iv_hi iv)
                 \<and> U ! pp = enc (eVal iv)))"
  using assms
proof (induction ivs arbitrary: U0)
  case Nil
  then show ?case by simp
next
  case (Cons iv ivs)
  from Cons.prems obtain U1 where 1: "unpackBody enc len iv U0 = Inr U1"
    and 2: "forEach (unpackBody enc len) ivs U1 = Inr U"
    by (auto split: sum.splits)
  note b = unpackBody_Inr [OF 1]
  note ih = Cons.IH [OF 2]
  have a: "length U = length U0" using b ih by simp
  have c: "\<forall>iv\<in>set (iv # ivs). iv_hi iv \<le> len \<and> 0 \<le> eVal iv \<and> eVal iv \<le> 1"
    using b ih by simp
  have d: "\<forall>pp. U ! pp = U0 ! pp
            \<or> (\<exists>iv\<in>set (iv # ivs). unat (iv_lo iv) \<le> pp \<and> pp < unat (iv_hi iv)
                 \<and> U ! pp = enc (eVal iv))"
  proof
    fix pp
    from ih have "U ! pp = U1 ! pp
            \<or> (\<exists>iv\<in>set ivs. unat (iv_lo iv) \<le> pp \<and> pp < unat (iv_hi iv)
                 \<and> U ! pp = enc (eVal iv))" by blast
    moreover from b have "U1 ! pp = (if unat (iv_lo iv) \<le> pp \<and> pp < unat (iv_hi iv) \<and> pp < length U0
                        then enc (eVal iv) else U0 ! pp)" by blast
    ultimately show "U ! pp = U0 ! pp
            \<or> (\<exists>iv\<in>set (iv # ivs). unat (iv_lo iv) \<le> pp \<and> pp < unat (iv_hi iv)
                 \<and> U ! pp = enc (eVal iv))"
      by (auto split: if_splits)
  qed
  from a c d show ?case by blast
qed


lemma spanIn_cong:
  assumes "\<forall>k. seqLen (prof' ! k) = seqLen (prof ! k)"
  shows "spanIn prof' iidMin (ovl\<lparr>discarded := d\<rparr>) = spanIn prof iidMin ovl"
  using assms by (simp add: spanIn_def spanOf_def b_iid_of_def)

lemma spanIn_prof_cong:
  assumes "\<forall>k. seqLen (prof' ! k) = seqLen (prof ! k)"
  shows "spanIn prof' iidMin ovl = spanIn prof iidMin ovl"
  using assms by (simp add: spanIn_def)

lemma visited_span:
  assumes "visited dec iidMin iter iid prof ovl ovl'"
    and "\<forall>k. seqLen (prof' ! k) = seqLen (prof ! k)"
  shows "spanIn prof' iidMin ovl' = spanIn prof iidMin ovl"
proof -
  from assms(1) have "ovl' = ovl\<lparr>discarded := discarded ovl'\<rparr>"
    by (simp add: visited_def)
  then show ?thesis using spanIn_cong [OF assms(2)] by metis
qed

lemma gatherOverlaps_Inr:
  assumes "gatherOverlaps dec iidMin iter iid st = Inr (st1, el)"
  shows "overlapIndex st1 = overlapIndex st \<and> readProfile st1 = readProfile st
     \<and> length (overlaps st1) = length (overlaps st)
     \<and> (\<forall>j. j \<notin> set (slice st iid) \<longrightarrow> overlaps st1 ! j = overlaps st ! j)
     \<and> (\<forall>j\<in>set (slice st iid). j < length (overlaps st)
           \<and> visited dec iidMin iter (of_nat iid) (readProfile st)
                (overlaps st ! j) (overlaps st1 ! j))
     \<and> el = eRateListOf dec iidMin st1 iid"
proof -
  from assms have run: "forEach (overlapBody dec iidMin iter (of_nat iid)) (slice st iid) (st, [])
      = Inr (st1, el)"
    by (simp add: gatherOverlaps_def slice_def split: if_splits)
  have d: "distinct (slice st iid)" by (simp add: slice_def)
  note g = gather_loop [OF run d]
  have sl: "slice st1 iid = slice st iid" using g by (simp add: slice_def)
  have "map (\<lambda>j. entryOf dec (spanIn (readProfile st1) iidMin (overlaps st1 ! j)))
          (filter (\<lambda>j. discarded (overlaps st1 ! j) \<noteq> 1) (slice st iid))
      = map (\<lambda>j. entryOf dec (spanIn (readProfile st) iidMin (overlaps st ! j)))
          (filter (\<lambda>j. discarded (overlaps st1 ! j) \<noteq> 1) (slice st iid))"
  proof (rule map_cong [OF refl])
    fix j assume "j \<in> set (filter (\<lambda>j. discarded (overlaps st1 ! j) \<noteq> 1) (slice st iid))"
    then have "j \<in> set (slice st iid)" by simp
    with g have "visited dec iidMin iter (of_nat iid) (readProfile st)
                (overlaps st ! j) (overlaps st1 ! j)" by blast
    from visited_span [OF this, of "readProfile st1"] g
    show "entryOf dec (spanIn (readProfile st1) iidMin (overlaps st1 ! j))
        = entryOf dec (spanIn (readProfile st) iidMin (overlaps st ! j))" by simp
  qed
  then have "el = eRateListOf dec iidMin st1 iid"
    using g by (simp add: eRateListOf_def survivors_def sl)
  with g show ?thesis by blast
qed

lemma processRead_Inr:
  assumes "processRead dec enc agg iidMin iter iid st = Inr st'"
  shows "iid < length (readProfile st)
     \<and> overlapIndex st' = overlapIndex st
     \<and> length (overlaps st') = length (overlaps st)
     \<and> length (readProfile st') = length (readProfile st)
     \<and> (\<forall>k. k \<noteq> iid \<longrightarrow> readProfile st' ! k = readProfile st ! k)
     \<and> readProfile st' ! iid
         = (readProfile st ! iid)\<lparr>errorMeanU := errorMeanU (readProfile st' ! iid)\<rparr>
     \<and> (seqLen (readProfile st ! iid) = 0 \<longrightarrow> st' = st)
     \<and> (seqLen (readProfile st ! iid) \<noteq> 0 \<longrightarrow>
          (\<forall>j. j \<notin> set (slice st iid) \<longrightarrow> overlaps st' ! j = overlaps st ! j)
          \<and> (\<forall>j\<in>set (slice st iid). j < length (overlaps st)
                \<and> visited dec iidMin iter (of_nat iid) (readProfile st)
                     (overlaps st ! j) (overlaps st' ! j))
          \<and> (\<exists>U0. memsetU (seqLen (readProfile st ! iid)) (errorMeanU (readProfile st ! iid))
                     = Inr U0
                \<and> forEach (unpackBody enc (seqLen (readProfile st ! iid)))
                     (agg (eRateListOf dec iidMin st' iid)) U0
                   = Inr (errorMeanU (readProfile st' ! iid))))"
proof (cases "seqLen (readProfile st ! iid) = 0")
  case True
  with assms have "iid < length (readProfile st)" "st' = st"
    by (auto simp: processRead_def split: if_splits)
  then show ?thesis using True by simp
next
  case False
  from assms have lt: "iid < length (readProfile st)"
    by (auto simp: processRead_def split: if_splits)
  from assms False lt obtain st1 el U0 U where
    g: "gatherOverlaps dec iidMin iter iid st = Inr (st1, el)"
    and m: "memsetU (seqLen (readProfile st1 ! iid)) (errorMeanU (readProfile st1 ! iid)) = Inr U0"
    and u: "forEach (unpackBody enc (seqLen (readProfile st1 ! iid))) (agg el) U0 = Inr U"
    and st': "st' = st1\<lparr>readProfile :=
              (readProfile st1)[iid := (readProfile st1 ! iid)\<lparr>errorMeanU := U\<rparr>]\<rparr>"
    by (auto simp: processRead_def Let_def split: if_splits sum.splits prod.splits)
  note G = gatherOverlaps_Inr [OF g]
  have p1: "readProfile st1 = readProfile st" using G by blast
  have ov: "overlaps st' = overlaps st1" by (simp add: st')
  have ix: "overlapIndex st' = overlapIndex st" using G by (simp add: st')
  have rp: "readProfile st' = (readProfile st)[iid := (readProfile st ! iid)\<lparr>errorMeanU := U\<rparr>]"
    by (simp add: st' p1)
  have U: "errorMeanU (readProfile st' ! iid) = U" using lt by (simp add: rp)
  have sq: "\<forall>k. seqLen (readProfile st' ! k) = seqLen (readProfile st1 ! k)"
  proof
    fix k show "seqLen (readProfile st' ! k) = seqLen (readProfile st1 ! k)"
      using lt by (cases "k = iid") (simp_all add: rp p1)
  qed
  have "eRateListOf dec iidMin st' iid = eRateListOf dec iidMin st1 iid"
    unfolding eRateListOf_def survivors_def slice_def ov ix
    using spanIn_prof_cong [OF sq] G by simp
  with G have el: "el = eRateListOf dec iidMin st' iid" by simp
  have a: "\<forall>k. k \<noteq> iid \<longrightarrow> readProfile st' ! k = readProfile st ! k" by (simp add: rp)
  have b: "readProfile st' ! iid
         = (readProfile st ! iid)\<lparr>errorMeanU := errorMeanU (readProfile st' ! iid)\<rparr>"
    using lt by (simp add: rp)
  have c: "\<exists>U0. memsetU (seqLen (readProfile st ! iid)) (errorMeanU (readProfile st ! iid))
                     = Inr U0
                \<and> forEach (unpackBody enc (seqLen (readProfile st ! iid)))
                     (agg (eRateListOf dec iidMin st' iid)) U0
                   = Inr (errorMeanU (readProfile st' ! iid))"
    using m u unfolding p1 el U by blast
  have d: "length (readProfile st') = length (readProfile st)" by (simp add: rp)
  from lt ix G a b c d False show ?thesis unfolding ov by blast
qed

subsection \<open>What the work items of an iteration preserve\<close>

lemma sameS_refl: "sameS prof prof"
  by (simp add: sameS_def)

lemma sameS_trans: "sameS a b \<Longrightarrow> sameS b c \<Longrightarrow> sameS a c"
  by (simp add: sameS_def)

lemma ESToverlapSpan_cong:
  assumes "sameS prof prof'"
  shows "ESToverlapSpan (ovl\<lparr>discarded := d\<rparr>) prof' iidMin = ESToverlapSpan ovl prof iidMin"
  using assms by (simp add: ESToverlapSpan_def sameS_def spanOf_def b_iid_of_def Let_def)

lemma errorMeanS_at_cong:
  assumes "sameS prof prof'"
  shows "errorMeanS_at prof' r i = errorMeanS_at prof r i"
  using assms by (simp add: errorMeanS_at_def sameS_def)

lemma computeEstimatedErate_cong:
  assumes "sameS prof prof'"
  shows "computeEstimatedErate dec iidMin sp prof' = computeEstimatedErate dec iidMin sp prof"
  unfolding computeEstimatedErate_def errorMeanS_at_cong [OF assms] by (rule refl)

lemma discardTest_cong:
  assumes "sameS prof prof'"
  shows "discardTest dec iidMin prof' (ovl\<lparr>discarded := d\<rparr>) = discardTest dec iidMin prof ovl"
  unfolding discardTest_def ESToverlapSpan_cong [OF assms] computeEstimatedErate_cong [OF assms]
  by (rule refl)

lemma evolves_refl: "evolves dec iidMin iter st st"
  by (simp add: evolves_def sameS_refl)

lemma evolves_trans:
  assumes ab: "evolves dec iidMin iter a b" and bc: "evolves dec iidMin iter b c"
  shows "evolves dec iidMin iter a c"
proof -
  have s: "sameS (readProfile a) (readProfile b)" using ab by (simp add: evolves_def)
  have 1: "overlapIndex c = overlapIndex a" "length (overlaps c) = length (overlaps a)"
    "sameS (readProfile a) (readProfile c)"
    using ab bc by (auto simp: evolves_def intro: sameS_trans)
  have 2: "\<forall>j. overlaps c ! j = (overlaps a ! j)\<lparr>discarded := discarded (overlaps c ! j)\<rparr>
             \<and> (discarded (overlaps a ! j) = 1 \<longrightarrow> discarded (overlaps c ! j) = 1)
             \<and> (discarded (overlaps c ! j) = 1 \<longrightarrow>
                  discarded (overlaps a ! j) = 1
                  \<or> 0 < iter \<and> discardTest dec iidMin (readProfile a) (overlaps a ! j))"
  proof
    fix j
    from ab have b1: "overlaps b ! j = (overlaps a ! j)\<lparr>discarded := discarded (overlaps b ! j)\<rparr>"
      and b2: "discarded (overlaps a ! j) = 1 \<longrightarrow> discarded (overlaps b ! j) = 1"
      and b3: "discarded (overlaps b ! j) = 1 \<longrightarrow> discarded (overlaps a ! j) = 1
                  \<or> 0 < iter \<and> discardTest dec iidMin (readProfile a) (overlaps a ! j)"
      by (simp_all add: evolves_def)
    from bc have c1: "overlaps c ! j = (overlaps b ! j)\<lparr>discarded := discarded (overlaps c ! j)\<rparr>"
      and c2: "discarded (overlaps b ! j) = 1 \<longrightarrow> discarded (overlaps c ! j) = 1"
      and c3: "discarded (overlaps c ! j) = 1 \<longrightarrow> discarded (overlaps b ! j) = 1
                  \<or> 0 < iter \<and> discardTest dec iidMin (readProfile b) (overlaps b ! j)"
      by (simp_all add: evolves_def)
    have t: "discardTest dec iidMin (readProfile b) (overlaps b ! j)
        = discardTest dec iidMin (readProfile a) (overlaps a ! j)"
      using discardTest_cong [OF s, where dec = dec and iidMin = iidMin
          and ovl = "overlaps a ! j" and d = "discarded (overlaps b ! j)"] b1
      by simp
    have e1: "overlaps c ! j = (overlaps a ! j)\<lparr>discarded := discarded (overlaps c ! j)\<rparr>"
      by (subst c1, subst b1) simp
    show "overlaps c ! j = (overlaps a ! j)\<lparr>discarded := discarded (overlaps c ! j)\<rparr>
             \<and> (discarded (overlaps a ! j) = 1 \<longrightarrow> discarded (overlaps c ! j) = 1)
             \<and> (discarded (overlaps c ! j) = 1 \<longrightarrow>
                  discarded (overlaps a ! j) = 1
                  \<or> 0 < iter \<and> discardTest dec iidMin (readProfile a) (overlaps a ! j))"
      using e1 b2 b3 c2 c3 t by blast
  qed
  from 1 2 show ?thesis unfolding evolves_def by blast
qed

lemma processRead_evolves:
  assumes "processRead dec enc agg iidMin iter iid st = Inr st'"
  shows "evolves dec iidMin iter st st'"
proof (cases "seqLen (readProfile st ! iid) = 0")
  case True
  then have "st' = st" using processRead_Inr [OF assms] by blast
  then show ?thesis by (simp add: evolves_refl)
next
  case False
  note P = processRead_Inr [OF assms]
  have s: "sameS (readProfile st) (readProfile st')"
    unfolding sameS_def
  proof (intro conjI allI)
    show "length (readProfile st') = length (readProfile st)" using P by blast
  next
    fix k
    show "seqLen (readProfile st' ! k) = seqLen (readProfile st ! k)"
    proof (cases "k = iid")
      case True
      from P have "readProfile st' ! iid
         = (readProfile st ! iid)\<lparr>errorMeanU := errorMeanU (readProfile st' ! iid)\<rparr>" by blast
      then show ?thesis using True by (metis readErrorEstimate.select_convs(1) readErrorEstimate.surjective readErrorEstimate.update_convs(3))
    next
      case False
      then show ?thesis using P by simp
    qed
  next
    fix k
    show "errorMeanS (readProfile st' ! k) = errorMeanS (readProfile st ! k)"
    proof (cases "k = iid")
      case True
      from P have "readProfile st' ! iid
         = (readProfile st ! iid)\<lparr>errorMeanU := errorMeanU (readProfile st' ! iid)\<rparr>" by blast
      then show ?thesis using True by (metis readErrorEstimate.select_convs(2) readErrorEstimate.surjective readErrorEstimate.update_convs(3))
    next
      case False
      then show ?thesis using P by simp
    qed
  qed
  have o: "\<forall>j. overlaps st' ! j = (overlaps st ! j)\<lparr>discarded := discarded (overlaps st' ! j)\<rparr>
             \<and> (discarded (overlaps st ! j) = 1 \<longrightarrow> discarded (overlaps st' ! j) = 1)
             \<and> (discarded (overlaps st' ! j) = 1 \<longrightarrow>
                  discarded (overlaps st ! j) = 1
                  \<or> 0 < iter \<and> discardTest dec iidMin (readProfile st) (overlaps st ! j))"
  proof
    fix j
    show "overlaps st' ! j = (overlaps st ! j)\<lparr>discarded := discarded (overlaps st' ! j)\<rparr>
             \<and> (discarded (overlaps st ! j) = 1 \<longrightarrow> discarded (overlaps st' ! j) = 1)
             \<and> (discarded (overlaps st' ! j) = 1 \<longrightarrow>
                  discarded (overlaps st ! j) = 1
                  \<or> 0 < iter \<and> discardTest dec iidMin (readProfile st) (overlaps st ! j))"
    proof (cases "j \<in> set (slice st iid)")
      case True
      with P False have "visited dec iidMin iter (of_nat iid) (readProfile st)
                     (overlaps st ! j) (overlaps st' ! j)" by blast
      then show ?thesis unfolding visited_def by blast
    next
      case False
      with P \<open>seqLen (readProfile st ! iid) \<noteq> 0\<close> have "overlaps st' ! j = overlaps st ! j"
        by blast
      then show ?thesis by simp
    qed
  qed
  from P s o show ?thesis unfolding evolves_def by blast
qed

subsection \<open>The second pass\<close>

lemma sumProfile_Suc:
  "sumProfile (Suc (Suc m)) U S
     = (sumProfile (Suc m) U S)[Suc m := sumProfile (Suc m) U S ! m + ucast (U ! Suc m)]"
  by (simp add: sumProfile_def)

lemma sumProfile_nth:
  assumes "Suc m \<le> length S"
  shows "length (sumProfile (Suc m) U S) = length S
     \<and> (\<forall>i\<le>m. sumProfile (Suc m) U S ! i = (\<Sum>k\<le>i. ucast (U ! k)))
     \<and> (\<forall>i>m. sumProfile (Suc m) U S ! i = S ! i)"
  using assms
proof (induction m)
  case 0
  then have "S \<noteq> []" by auto
  then show ?case by (simp add: sumProfile_def)
next
  case (Suc m)
  then have ih: "length (sumProfile (Suc m) U S) = length S"
     "\<forall>i\<le>m. sumProfile (Suc m) U S ! i = (\<Sum>k\<le>i. ucast (U ! k))"
     "\<forall>i>m. sumProfile (Suc m) U S ! i = S ! i"
    by simp_all
  have lt: "Suc m < length (sumProfile (Suc m) U S)" using ih(1) Suc.prems by simp
  have 1: "length (sumProfile (Suc (Suc m)) U S) = length S"
    by (simp add: sumProfile_Suc ih(1))
  have 2: "\<forall>i\<le>Suc m. sumProfile (Suc (Suc m)) U S ! i = (\<Sum>k\<le>i. ucast (U ! k))"
  proof (intro allI impI)
    fix i assume i: "i \<le> Suc m"
    show "sumProfile (Suc (Suc m)) U S ! i = (\<Sum>k\<le>i. ucast (U ! k))"
    proof (cases "i = Suc m")
      case True
      have "sumProfile (Suc (Suc m)) U S ! Suc m
          = sumProfile (Suc m) U S ! m + ucast (U ! Suc m)"
        using lt by (simp add: sumProfile_Suc)
      also have "\<dots> = (\<Sum>k\<le>m. ucast (U ! k)) + ucast (U ! Suc m)"
        using ih(2) by simp
      finally show ?thesis using True by simp
    next
      case False
      with i have "i \<le> m" by simp
      then show ?thesis using ih(2) False by (simp add: sumProfile_Suc)
    qed
  qed
  have 3: "\<forall>i>Suc m. sumProfile (Suc (Suc m)) U S ! i = S ! i"
    using ih(3) by (simp add: sumProfile_Suc)
  from 1 2 3 show ?case by blast
qed

lemma sumBody_Inr:
  assumes "sumBody iid st = Inr st'"
  shows "iid < length (readProfile st)
    \<and> overlapIndex st' = overlapIndex st \<and> overlaps st' = overlaps st
    \<and> length (readProfile st') = length (readProfile st)
    \<and> (\<forall>k. k \<noteq> iid \<longrightarrow> readProfile st' ! k = readProfile st ! k)
    \<and> seqLen (readProfile st' ! iid) = seqLen (readProfile st ! iid)
    \<and> errorMeanU (readProfile st' ! iid) = errorMeanU (readProfile st ! iid)
    \<and> (seqLen (readProfile st ! iid) = 0 \<longrightarrow> st' = st)
    \<and> (seqLen (readProfile st ! iid) \<noteq> 0 \<longrightarrow>
         unat (seqLen (readProfile st ! iid)) \<le> length (errorMeanS (readProfile st ! iid))
         \<and> unat (seqLen (readProfile st ! iid)) \<le> length (errorMeanU (readProfile st ! iid))
         \<and> errorMeanS (readProfile st' ! iid)
             = sumProfile (unat (seqLen (readProfile st ! iid)))
                 (errorMeanU (readProfile st ! iid)) (errorMeanS (readProfile st ! iid)))"
  using assms
  by (auto simp: sumBody_def Let_def split: if_splits)

lemma sum_loop:
  assumes "forEach sumBody is st = Inr st'" and "distinct is"
  shows "overlapIndex st' = overlapIndex st \<and> overlaps st' = overlaps st
    \<and> length (readProfile st') = length (readProfile st)
    \<and> (\<forall>k. seqLen (readProfile st' ! k) = seqLen (readProfile st ! k)
           \<and> errorMeanU (readProfile st' ! k) = errorMeanU (readProfile st ! k))
    \<and> (\<forall>k. k \<notin> set is \<longrightarrow> readProfile st' ! k = readProfile st ! k)
    \<and> (\<forall>k\<in>set is. k < length (readProfile st)
          \<and> (seqLen (readProfile st ! k) \<noteq> 0 \<longrightarrow>
               unat (seqLen (readProfile st ! k)) \<le> length (errorMeanS (readProfile st ! k))
               \<and> unat (seqLen (readProfile st ! k)) \<le> length (errorMeanU (readProfile st ! k))
               \<and> errorMeanS (readProfile st' ! k)
                   = sumProfile (unat (seqLen (readProfile st ! k)))
                       (errorMeanU (readProfile st ! k)) (errorMeanS (readProfile st ! k))))"
  using assms
proof (induction "is" arbitrary: st)
  case Nil
  then show ?case by simp
next
  case (Cons i "is")
  from Cons.prems(1) obtain s1 where body: "sumBody i st = Inr s1"
    and rest: "forEach sumBody is s1 = Inr st'"
    by (auto split: sum.splits)
  from Cons.prems(2) have di: "i \<notin> set is" and dis: "distinct is" by simp_all
  note b = sumBody_Inr [OF body]
  note ih = Cons.IH [OF rest dis]
  have same1: "\<And>k. k \<noteq> i \<Longrightarrow> readProfile s1 ! k = readProfile st ! k" using b by blast
  have keep: "readProfile st' ! i = readProfile s1 ! i" using ih di by blast
  have 1: "overlapIndex st' = overlapIndex st \<and> overlaps st' = overlaps st
    \<and> length (readProfile st') = length (readProfile st)" using ih b by simp
  have 2: "\<forall>k. seqLen (readProfile st' ! k) = seqLen (readProfile st ! k)
           \<and> errorMeanU (readProfile st' ! k) = errorMeanU (readProfile st ! k)"
  proof
    fix k
    have "seqLen (readProfile s1 ! k) = seqLen (readProfile st ! k)
           \<and> errorMeanU (readProfile s1 ! k) = errorMeanU (readProfile st ! k)"
      using b same1 by (cases "k = i") simp_all
    then show "seqLen (readProfile st' ! k) = seqLen (readProfile st ! k)
           \<and> errorMeanU (readProfile st' ! k) = errorMeanU (readProfile st ! k)"
      using ih by simp
  qed
  have 3: "\<forall>k. k \<notin> set (i # is) \<longrightarrow> readProfile st' ! k = readProfile st ! k"
    using ih same1 by simp
  have 4: "\<forall>k\<in>set (i # is). k < length (readProfile st)
          \<and> (seqLen (readProfile st ! k) \<noteq> 0 \<longrightarrow>
               unat (seqLen (readProfile st ! k)) \<le> length (errorMeanS (readProfile st ! k))
               \<and> unat (seqLen (readProfile st ! k)) \<le> length (errorMeanU (readProfile st ! k))
               \<and> errorMeanS (readProfile st' ! k)
                   = sumProfile (unat (seqLen (readProfile st ! k)))
                       (errorMeanU (readProfile st ! k)) (errorMeanS (readProfile st ! k)))"
  proof
    fix k assume k: "k \<in> set (i # is)"
    show "k < length (readProfile st)
          \<and> (seqLen (readProfile st ! k) \<noteq> 0 \<longrightarrow>
               unat (seqLen (readProfile st ! k)) \<le> length (errorMeanS (readProfile st ! k))
               \<and> unat (seqLen (readProfile st ! k)) \<le> length (errorMeanU (readProfile st ! k))
               \<and> errorMeanS (readProfile st' ! k)
                   = sumProfile (unat (seqLen (readProfile st ! k)))
                       (errorMeanU (readProfile st ! k)) (errorMeanS (readProfile st ! k)))"
    proof (cases "k = i")
      case True
      then show ?thesis using b keep by simp
    next
      case False
      with k have "k \<in> set is" by simp
      with ih have "k < length (readProfile s1)
          \<and> (seqLen (readProfile s1 ! k) \<noteq> 0 \<longrightarrow>
               unat (seqLen (readProfile s1 ! k)) \<le> length (errorMeanS (readProfile s1 ! k))
               \<and> unat (seqLen (readProfile s1 ! k)) \<le> length (errorMeanU (readProfile s1 ! k))
               \<and> errorMeanS (readProfile st' ! k)
                   = sumProfile (unat (seqLen (readProfile s1 ! k)))
                       (errorMeanU (readProfile s1 ! k)) (errorMeanS (readProfile s1 ! k)))"
        by blast
      then show ?thesis using same1 [OF False] b by simp
    qed
  qed
  from 1 2 3 4 show ?case by blast
qed

lemma recompute_Inr:
  assumes "recomputeErrorProfile dec enc agg iidMin numIIDs iter st = Inr st'"
  shows "\<exists>st1. forEach (processRead dec enc agg iidMin iter) [0 ..< unat numIIDs] st = Inr st1
    \<and> forEach sumBody [0 ..< unat numIIDs] st1 = Inr st'"
proof (cases "forEach (processRead dec enc agg iidMin iter) [0 ..< unat numIIDs] st")
  case (Inl e)
  with assms show ?thesis by (simp add: recomputeErrorProfile_def)
next
  case (Inr st1)
  with assms show ?thesis by (simp add: recomputeErrorProfile_def)
qed

lemma ucast_sum:
  "(\<Sum>k\<in>A. (ucast (f k :: 16 word) :: 32 word)) = of_nat (\<Sum>k\<in>A. unat (f k))"
  by (simp add: of_nat_sum)

lemma unat_ucast_sum:
  "unat (\<Sum>k\<in>A. (ucast (f k :: 16 word) :: 32 word)) = (\<Sum>k\<in>A. unat (f k)) mod 2 ^ 32"
  unfolding ucast_sum unat_of_nat by simp

subsection \<open>One iteration\<close>

lemma firstPass_evolves:
  assumes "forEach (processRead dec enc agg iidMin iter) is st = Inr st1"
  shows "evolves dec iidMin iter st st1"
  by (rule forEach_rel [where f = "processRead dec enc agg iidMin iter", OF _ _ _ assms])
    (auto intro: processRead_evolves evolves_refl evolves_trans)

lemma firstPass_mem:
  assumes "forEach (processRead dec enc agg iidMin iter) is st = Inr st1" and "iid \<in> set is"
  shows "\<exists>sa sb. evolves dec iidMin iter st sa
     \<and> processRead dec enc agg iidMin iter iid sa = Inr sb
     \<and> evolves dec iidMin iter sb st1"
  by (rule forEach_mem [where f = "processRead dec enc agg iidMin iter", OF _ _ _ assms])
    (auto intro: processRead_evolves evolves_refl evolves_trans)

lemma recompute_overlaps:
  assumes "recomputeErrorProfile dec enc agg iidMin numIIDs iter st = Inr st'"
  shows "\<exists>st1. forEach (processRead dec enc agg iidMin iter) [0 ..< unat numIIDs] st = Inr st1
     \<and> evolves dec iidMin iter st st1
     \<and> overlaps st' = overlaps st1 \<and> overlapIndex st' = overlapIndex st"
proof -
  from recompute_Inr [OF assms] obtain st1 where
    1: "forEach (processRead dec enc agg iidMin iter) [0 ..< unat numIIDs] st = Inr st1"
    and 2: "forEach sumBody [0 ..< unat numIIDs] st1 = Inr st'" by blast
  note e = firstPass_evolves [OF 1]
  note L = sum_loop [OF 2 distinct_upt]
  have "overlapIndex st' = overlapIndex st" using e L by (simp add: evolves_def)
  then show ?thesis using 1 e L by blast
qed

lemma evolves_test:
  assumes "evolves dec iidMin iter st sa"
  shows "discardTest dec iidMin (readProfile sa) (overlaps sa ! j)
       = discardTest dec iidMin (readProfile st) (overlaps st ! j)"
proof -
  from assms have s: "sameS (readProfile st) (readProfile sa)"
    and o: "overlaps sa ! j = (overlaps st ! j)\<lparr>discarded := discarded (overlaps sa ! j)\<rparr>"
    by (simp_all add: evolves_def)
  show ?thesis
    using discardTest_cong [OF s, where dec = dec and iidMin = iidMin
        and ovl = "overlaps st ! j" and d = "discarded (overlaps sa ! j)"] o
    by simp
qed

lemma evolves_span:
  assumes "evolves dec iidMin iter st sa"
  shows "spanIn (readProfile sa) iidMin (overlaps sa ! j)
       = spanIn (readProfile st) iidMin (overlaps st ! j)
     \<and> ESToverlapSpan (overlaps sa ! j) (readProfile sa) iidMin
       = ESToverlapSpan (overlaps st ! j) (readProfile st) iidMin"
proof -
  from assms have s: "sameS (readProfile st) (readProfile sa)"
    and o: "overlaps sa ! j = (overlaps st ! j)\<lparr>discarded := discarded (overlaps sa ! j)\<rparr>"
    by (simp_all add: evolves_def)
  from s have q: "\<forall>k. seqLen (readProfile sa ! k) = seqLen (readProfile st ! k)"
    by (simp add: sameS_def)
  have 1: "spanIn (readProfile sa) iidMin (overlaps sa ! j)
       = spanIn (readProfile st) iidMin (overlaps st ! j)"
    using spanIn_cong [OF q, where iidMin = iidMin and ovl = "overlaps st ! j"
        and d = "discarded (overlaps sa ! j)"] o by simp
  have 2: "ESToverlapSpan (overlaps sa ! j) (readProfile sa) iidMin
       = ESToverlapSpan (overlaps st ! j) (readProfile st) iidMin"
    using ESToverlapSpan_cong [OF s, where iidMin = iidMin and ovl = "overlaps st ! j"
        and d = "discarded (overlaps sa ! j)"] o by simp
  from 1 2 show ?thesis by blast
qed

lemma workItem_in_pass:
  assumes pass: "forEach (processRead dec enc agg iidMin iter) [0 ..< n] st = Inr st1"
    and iid: "iid < n"
    and act: "seqLen (readProfile st ! iid) \<noteq> 0"
    and j: "j \<in> set (slice st iid)"
  shows "\<exists>sa sb. evolves dec iidMin iter st sa \<and> evolves dec iidMin iter sb st1
     \<and> visited dec iidMin iter (of_nat iid) (readProfile sa) (overlaps sa ! j) (overlaps sb ! j)"
proof -
  have mem: "iid \<in> set [0 ..< n]" using iid by simp
  from firstPass_mem [OF pass mem] obtain sa sb where
    a: "evolves dec iidMin iter st sa"
    and p: "processRead dec enc agg iidMin iter iid sa = Inr sb"
    and b: "evolves dec iidMin iter sb st1" by blast
  from a have sl: "slice sa iid = slice st iid" by (simp add: evolves_def slice_def)
  from a have "seqLen (readProfile sa ! iid) = seqLen (readProfile st ! iid)"
    by (simp add: evolves_def sameS_def)
  with act have act': "seqLen (readProfile sa ! iid) \<noteq> 0" by simp
  from processRead_Inr [OF p] act' j sl
  have "visited dec iidMin iter (of_nat iid) (readProfile sa) (overlaps sa ! j) (overlaps sb ! j)"
    by simp
  with a b show ?thesis by blast
qed

lemma pass_discard_iff:
  assumes pass: "forEach (processRead dec enc agg iidMin iter) [0 ..< n] st = Inr st1"
    and iid: "iid < n"
    and act: "seqLen (readProfile st ! iid) \<noteq> 0"
    and j: "j \<in> set (slice st iid)"
  shows "(discarded (overlaps st1 ! j) = 1)
       = (discarded (overlaps st ! j) = 1
          \<or> 0 < iter \<and> discardTest dec iidMin (readProfile st) (overlaps st ! j))"
proof -
  from workItem_in_pass [OF pass iid act j] obtain sa sb where
    a: "evolves dec iidMin iter st sa" and b: "evolves dec iidMin iter sb st1"
    and v: "visited dec iidMin iter (of_nat iid) (readProfile sa) (overlaps sa ! j) (overlaps sb ! j)"
    by blast
  note e = firstPass_evolves [OF pass]
  note t = evolves_test [OF a, of j]
  from v have vb: "(discarded (overlaps sb ! j) = 1)
       = (discarded (overlaps sa ! j) = 1
          \<or> 0 < iter \<and> discardTest dec iidMin (readProfile sa) (overlaps sa ! j))"
    by (simp add: visited_def)
  from a have a1: "discarded (overlaps st ! j) = 1 \<longrightarrow> discarded (overlaps sa ! j) = 1"
    by (simp add: evolves_def)
  from b have b1: "discarded (overlaps sb ! j) = 1 \<longrightarrow> discarded (overlaps st1 ! j) = 1"
    by (simp add: evolves_def)
  from e have e2: "discarded (overlaps st1 ! j) = 1 \<longrightarrow> discarded (overlaps st ! j) = 1
          \<or> 0 < iter \<and> discardTest dec iidMin (readProfile st) (overlaps st ! j)"
    by (simp add: evolves_def)
  show ?thesis using vb a1 b1 e2 t by blast
qed

lemma discardTest_iff:
  "discardTest dec iidMin prof ovl
     = (\<exists>est. ESToverlapSpan ovl prof iidMin = Inr (spanIn prof iidMin ovl)
          \<and> computeEstimatedErate dec iidMin (spanIn prof iidMin ovl) prof = Inr est
          \<and> dadd est ERATE_TOLERANCE < dec (unat (erate ovl)))"
proof -
  have u: "unat (span_erate (spanIn prof iidMin ovl)) = unat (erate ovl)"
    by (simp add: spanIn_def spanOf_def unsigned_ucast_eq take_bit_nat_eq_self
        order_less_trans [OF unsigned_less])
  show ?thesis
  proof (cases "ESToverlapSpan ovl prof iidMin")
    case (Inl e)
    then show ?thesis by (simp add: discardTest_def)
  next
    case (Inr sp)
    then have sp: "sp = spanIn prof iidMin ovl" by (rule ESToverlapSpan_Inr)
    show ?thesis
      using Inr unfolding discardTest_def sp
      by (cases "computeEstimatedErate dec iidMin (spanIn prof iidMin ovl) prof")
        (simp_all add: u)
  qed
qed

subsection \<open>The span of an overlap\<close>

text \<open>
  Claim C6, as amended. For every packed overlap and every pair of read lengths, the
  coordinates that the constructor of \<^verbatim>\<open>ESToverlapSpan\<close> derives are \<^verbatim>\<open>uint32\<close>
  values, read here as integers: \<open>a_beg\<close> is 0 when \<open>a_hang\<close> is negative and \<open>a_hang\<close>
  otherwise; \<open>a_end\<close> is \<open>lenA + b_hang\<close> modulo \<open>2 ^ 32\<close> when \<open>b_hang\<close> is negative and
  \<open>lenA\<close> otherwise; \<open>b_beg\<close> is \<open>- a_hang\<close> when \<open>a_hang\<close> is negative and 0 otherwise;
  \<open>b_end\<close> is \<open>lenB\<close> when \<open>b_hang\<close> is negative and \<open>lenB - b_hang\<close> modulo \<open>2 ^ 32\<close>
  otherwise. \<open>a_end\<close> is the integer \<open>lenA + b_hang\<close> itself whenever that is not
  negative, and \<open>b_end\<close> is the integer \<open>lenB - b_hang\<close> itself whenever \<open>b_hang\<close> is
  at most \<open>lenB\<close>. The lengths that the constructor uses are the \<^verbatim>\<open>seqLen\<close> of the
  profiles of the two reads.
\<close>

theorem span_coordinates:
  "uint (a_beg (spanOf ovl lenA lenB)) = (if sint (a_hang ovl) < 0 then 0 else sint (a_hang ovl))
   \<and> uint (a_end (spanOf ovl lenA lenB))
     = (if sint (b_hang ovl) < 0 then (uint lenA + sint (b_hang ovl)) mod 2 ^ 32 else uint lenA)
   \<and> uint (b_beg (spanOf ovl lenA lenB))
     = (if sint (a_hang ovl) < 0 then - sint (a_hang ovl) else 0)
   \<and> uint (b_end (spanOf ovl lenA lenB))
     = (if sint (b_hang ovl) < 0 then uint lenB else (uint lenB - sint (b_hang ovl)) mod 2 ^ 32)
   \<and> (0 \<le> uint lenA + sint (b_hang ovl) \<longrightarrow>
        uint (a_end (spanOf ovl lenA lenB))
          = (if sint (b_hang ovl) < 0 then uint lenA + sint (b_hang ovl) else uint lenA))
   \<and> (sint (b_hang ovl) \<le> uint lenB \<longrightarrow>
        uint (b_end (spanOf ovl lenA lenB))
          = (if sint (b_hang ovl) < 0 then uint lenB else uint lenB - sint (b_hang ovl)))
   \<and> (ESToverlapSpan ovl prof iidMin = Inr sp \<longrightarrow>
        sp = spanOf ovl (seqLen (prof ! unat (ucast (a_iid ovl) - iidMin)))
                        (seqLen (prof ! unat (b_iid_of ovl - iidMin))))"
proof -
  have a: "- (2 ^ 16) \<le> sint (a_hang ovl)" "sint (a_hang ovl) < 2 ^ 16"
    using sint_hang_bounds [of "a_hang ovl"] by simp_all
  have b: "- (2 ^ 16) \<le> sint (b_hang ovl)" "sint (b_hang ovl) < 2 ^ 16"
    using sint_hang_bounds [of "b_hang ovl"] by simp_all
  have la: "0 \<le> uint lenA" "uint lenA < 2 ^ 32"
    using uint_lt2p [of lenA] by simp_all
  have lb: "0 \<le> uint lenB" "uint lenB < 2 ^ 32"
    using uint_lt2p [of lenB] by simp_all
  have pos: "0 \<le> sint (a_hang ovl) \<Longrightarrow> sint (a_hang ovl) mod 2 ^ 32 = sint (a_hang ovl)"
    using a by simp
  have neg: "sint (a_hang ovl) < 0 \<Longrightarrow> (- sint (a_hang ovl)) mod 2 ^ 32 = - sint (a_hang ovl)"
    using a by simp
  have 1: "uint (a_beg (spanOf ovl lenA lenB))
     = (if sint (a_hang ovl) < 0 then 0 else sint (a_hang ovl))"
    unfolding spanOf_def using pos by (simp add: uint_scast_hang)
  have 2: "uint (a_end (spanOf ovl lenA lenB))
     = (if sint (b_hang ovl) < 0 then (uint lenA + sint (b_hang ovl)) mod 2 ^ 32 else uint lenA)"
    unfolding spanOf_def by (simp add: uint_plus_scast)
  have 3: "uint (b_beg (spanOf ovl lenA lenB))
     = (if sint (a_hang ovl) < 0 then - sint (a_hang ovl) else 0)"
    unfolding spanOf_def using neg by (simp add: uint_neg_scast)
  have 4: "uint (b_end (spanOf ovl lenA lenB))
     = (if sint (b_hang ovl) < 0 then uint lenB else (uint lenB - sint (b_hang ovl)) mod 2 ^ 32)"
    unfolding spanOf_def by (simp add: uint_minus_scast)
  have 5: "0 \<le> uint lenA + sint (b_hang ovl) \<longrightarrow>
        uint (a_end (spanOf ovl lenA lenB))
          = (if sint (b_hang ovl) < 0 then uint lenA + sint (b_hang ovl) else uint lenA)"
  proof
    assume h: "0 \<le> uint lenA + sint (b_hang ovl)"
    show "uint (a_end (spanOf ovl lenA lenB))
          = (if sint (b_hang ovl) < 0 then uint lenA + sint (b_hang ovl) else uint lenA)"
    proof (cases "sint (b_hang ovl) < 0")
      case True
      then have "uint lenA + sint (b_hang ovl) < 2 ^ 32" using la by simp
      with h have "(uint lenA + sint (b_hang ovl)) mod 2 ^ 32 = uint lenA + sint (b_hang ovl)"
        by simp
      with 2 True show ?thesis by simp
    next
      case False
      with 2 show ?thesis by simp
    qed
  qed
  have 6: "sint (b_hang ovl) \<le> uint lenB \<longrightarrow>
        uint (b_end (spanOf ovl lenA lenB))
          = (if sint (b_hang ovl) < 0 then uint lenB else uint lenB - sint (b_hang ovl))"
  proof
    assume h: "sint (b_hang ovl) \<le> uint lenB"
    show "uint (b_end (spanOf ovl lenA lenB))
          = (if sint (b_hang ovl) < 0 then uint lenB else uint lenB - sint (b_hang ovl))"
    proof (cases "sint (b_hang ovl) < 0")
      case True
      with 4 show ?thesis by simp
    next
      case False
      then have "uint lenB - sint (b_hang ovl) < 2 ^ 32" using lb by simp
      moreover have "0 \<le> uint lenB - sint (b_hang ovl)" using h by simp
      ultimately have "(uint lenB - sint (b_hang ovl)) mod 2 ^ 32 = uint lenB - sint (b_hang ovl)"
        by simp
      with 4 False show ?thesis by simp
    qed
  qed
  have 7: "ESToverlapSpan ovl prof iidMin = Inr sp \<longrightarrow>
        sp = spanOf ovl (seqLen (prof ! unat (ucast (a_iid ovl) - iidMin)))
                        (seqLen (prof ! unat (b_iid_of ovl - iidMin)))"
    using ESToverlapSpan_Inr [of ovl prof iidMin sp] by (simp add: spanIn_def)
  from 1 2 3 4 5 6 7 show ?thesis by blast
qed

text \<open>A read of length 4 and a read of length 2 with the hangs \<open>-3\<close> and \<open>-1\<close>: the overlap
  spans the bases 0 to 3 of the first read.\<close>

theorem span_coordinates_witness:
  "0 \<le> uint (4 :: 32 word) + sint (b_hang (mkOvl 1 2 (- 3) (- 1) 200))
   \<and> sint (b_hang (mkOvl 1 2 (- 3) (- 1) 200)) \<le> uint (2 :: 32 word)
   \<and> uint (a_beg (spanOf (mkOvl 1 2 (- 3) (- 1) 200) 4 2)) = 0
   \<and> uint (a_end (spanOf (mkOvl 1 2 (- 3) (- 1) 200) 4 2)) = 3
   \<and> uint (b_beg (spanOf (mkOvl 1 2 (- 3) (- 1) 200) 4 2)) = 3
   \<and> uint (b_end (spanOf (mkOvl 1 2 (- 3) (- 1) 200) 4 2)) = 2"
proof -
  have h: "0 \<le> uint (4 :: 32 word) + sint (b_hang (mkOvl 1 2 (- 3) (- 1) 200))"
    "sint (b_hang (mkOvl 1 2 (- 3) (- 1) 200)) \<le> uint (2 :: 32 word)"
    by (simp_all add: mkOvl_def)
  have v: "sint (a_hang (mkOvl 1 2 (- 3) (- 1) 200)) = - 3"
    "sint (b_hang (mkOvl 1 2 (- 3) (- 1) 200)) = - 1"
    by (simp_all add: mkOvl_def)
  note r = span_coordinates [of "mkOvl 1 2 (- 3) (- 1) 200" 4 2]
  from r h show ?thesis unfolding v by simp
qed

text \<open>The claim without the reduction modulo \<open>2 ^ 32\<close> fails when a hang exceeds the
  length of the read: with \<open>lenA = 3\<close> and \<open>b_hang = -5\<close> the constructor stores
  \<open>4294967294\<close> in \<open>a_end\<close>, and \<open>lenA + b_hang\<close> is \<open>-2\<close>; with \<open>lenB = 3\<close> and
  \<open>b_hang = 5\<close> it stores the same value in \<open>b_end\<close>.\<close>

theorem span_coordinates_counterexample:
  "uint (a_end (spanOf (mkOvl 1 2 0 (- 5) 200) 3 3)) = 4294967294
   \<and> uint (3 :: 32 word) + sint (b_hang (mkOvl 1 2 0 (- 5) 200)) = - 2
   \<and> uint (b_end (spanOf (mkOvl 1 2 0 5 200) 3 3)) = 4294967294
   \<and> uint (3 :: 32 word) - sint (b_hang (mkOvl 1 2 0 5 200)) = - 2"
  by (simp add: spanOf_def mkOvl_def uint_plus_scast uint_minus_scast)

subsection \<open>Packing and unpacking\<close>

text \<open>The assignments of \<^verbatim>\<open>populate\<close>: for a native overlap whose identifiers are below
  \<open>2 ^ 23\<close> and whose hangs lie in the range of a signed 17-bit field, the packed record
  gives back both identifiers, both hangs and the orientation; its \<open>erate\<close> holds the low
  12 bits of \<^verbatim>\<open>evalue()\<close>; its \<open>discarded\<close> bit is 0.\<close>

lemma pack_fields:
  assumes "ovl_a_iid ovl < 2 ^ 23" and "ovl_b_iid ovl < 2 ^ 23"
    and "- (2 ^ 16) \<le> sint (ovl_a_hang ovl)" and "sint (ovl_a_hang ovl) < 2 ^ 16"
    and "- (2 ^ 16) \<le> sint (ovl_b_hang ovl)" and "sint (ovl_b_hang ovl) < 2 ^ 16"
  shows "ucast (a_iid (pack ovl)) = ovl_a_iid ovl
       \<and> b_iid_of (pack ovl) = ovl_b_iid ovl
       \<and> sint (a_hang (pack ovl)) = sint (ovl_a_hang ovl)
       \<and> sint (b_hang (pack ovl)) = sint (ovl_b_hang ovl)
       \<and> (flipped (pack ovl) = 1) = ovl_flipped ovl
       \<and> unat (erate (pack ovl)) = unat (ovl_evalue ovl) mod 2 ^ 12
       \<and> discarded (pack ovl) = 0"
proof -
  have 1: "ucast (a_iid (pack ovl)) = ovl_a_iid ovl"
    using a_iid_roundtrip [OF assms(1)] by (simp add: pack_def)
  have 2: "b_iid_of (pack ovl) = ovl_b_iid ovl"
    using b_iid_roundtrip [OF assms(2)] by (simp add: pack_def b_iid_of_def)
  have 3: "sint (a_hang (pack ovl)) = sint (ovl_a_hang ovl)"
    using hang_roundtrip [OF assms(3,4)] by (simp add: pack_def)
  have 4: "sint (b_hang (pack ovl)) = sint (ovl_b_hang ovl)"
    using hang_roundtrip [OF assms(5,6)] by (simp add: pack_def)
  have 5: "(flipped (pack ovl) = 1) = ovl_flipped ovl"
    by (simp add: pack_def)
  have 6: "unat (erate (pack ovl)) = unat (ovl_evalue ovl) mod 2 ^ 12"
    by (simp add: pack_def unsigned_ucast_eq take_bit_eq_mod)
  have 7: "discarded (pack ovl) = 0"
    by (simp add: pack_def)
  from 1 2 3 4 5 6 7 show ?thesis by blast
qed

text \<open>On such an overlap the assertions on the identifiers, the hangs and the orientation
  hold, and \<^verbatim>\<open>populate\<close> returns the packed record exactly when \<^verbatim>\<open>ovl.erate()\<close>, the
  decoded error rate, equals the number stored in the field \<open>erate\<close>, the encoded one.\<close>

lemma populate_result:
  assumes "ovl_a_iid ovl < 2 ^ 23" and "ovl_b_iid ovl < 2 ^ 23"
    and "- (2 ^ 16) \<le> sint (ovl_a_hang ovl)" and "sint (ovl_a_hang ovl) < 2 ^ 16"
    and "- (2 ^ 16) \<le> sint (ovl_b_hang ovl)" and "sint (ovl_b_hang ovl) < 2 ^ 16"
  shows "populate ovl = (if ovl_erate ovl = real (unat (erate (pack ovl)))
                         then Inr (pack ovl) else Inl AssertFailed)"
  unfolding populate_def Let_def using pack_fields [OF assms] by auto

text \<open>
  Claim C9. The overlap \<open>ovl0\<close> lies inside the widths of the claim, its encoded error rate
  200 fits the 12 bits of the field, and \<^verbatim>\<open>erate()\<close> is the decoding of that value. The
  fields that \<^verbatim>\<open>populate\<close> assigns give back the identifiers, the hangs, the
  orientation and the encoded error rate, with \<open>discarded\<close> cleared; but \<^verbatim>\<open>populate\<close>
  does not return the record: the assertion \<^verbatim>\<open>ovl.erate() == erate\<close> compares the decoded
  rate with the encoded one and fails.
\<close>

theorem populate_erate_assertion:
  "ovl_a_iid ovl0 < 2 ^ 23 \<and> ovl_b_iid ovl0 < 2 ^ 23
   \<and> - (2 ^ 16) \<le> sint (ovl_a_hang ovl0) \<and> sint (ovl_a_hang ovl0) < 2 ^ 16
   \<and> - (2 ^ 16) \<le> sint (ovl_b_hang ovl0) \<and> sint (ovl_b_hang ovl0) < 2 ^ 16
   \<and> ovl_evalue ovl0 < 2 ^ 12
   \<and> ovl_erate ovl0 = decodeEvalue (unat (ovl_evalue ovl0))
   \<and> ucast (a_iid (pack ovl0)) = ovl_a_iid ovl0
   \<and> b_iid_of (pack ovl0) = ovl_b_iid ovl0
   \<and> sint (a_hang (pack ovl0)) = sint (ovl_a_hang ovl0)
   \<and> sint (b_hang (pack ovl0)) = sint (ovl_b_hang ovl0)
   \<and> (flipped (pack ovl0) = 1) = ovl_flipped ovl0
   \<and> ucast (erate (pack ovl0)) = ovl_evalue ovl0
   \<and> discarded (pack ovl0) = 0
   \<and> populate ovl0 = Inl AssertFailed"
proof -
  have h: "ovl_a_iid ovl0 < 2 ^ 23" "ovl_b_iid ovl0 < 2 ^ 23"
    "- (2 ^ 16) \<le> sint (ovl_a_hang ovl0)" "sint (ovl_a_hang ovl0) < 2 ^ 16"
    "- (2 ^ 16) \<le> sint (ovl_b_hang ovl0)" "sint (ovl_b_hang ovl0) < 2 ^ 16"
    by (simp_all add: ovl0_def)
  have e: "ovl_evalue ovl0 < 2 ^ 12" "ovl_erate ovl0 = decodeEvalue (unat (ovl_evalue ovl0))"
    "ucast (erate (pack ovl0)) = ovl_evalue ovl0"
    by (simp_all add: ovl0_def pack_def)
  have n: "ovl_erate ovl0 \<noteq> real (unat (erate (pack ovl0)))"
    by (simp add: ovl0_def pack_def double_defs)
  from populate_result [OF h] n have p: "populate ovl0 = Inl AssertFailed"
    by (simp only: if_False)
  from pack_fields [OF h] h e p show ?thesis by blast
qed

subsection \<open>A concrete run: iteration 0\<close>

text \<open>The run on reads 1 and 2 is evaluated step by step: the loop over the overlaps of a
  read (\<open>g\<close>), the work item of a read (\<open>p\<close>), the two passes and the iteration (\<open>it\<close>).
  In iteration 0 nothing is discarded; read 1 gets the means 100 on base 0 and 1050 on the
  bases 1 to 3.\<close>

lemmas run_defs = run0_def run1_def run2_def mkOvl_def

lemmas gather_defs = gatherOverlaps_def overlapBody_def ESToverlapSpan_def spanOf_def
  b_iid_of_def Let_def computeEstimatedErate_def errorMeanS_at_def estErrorSum_def
  entryOf_def w200_def w4000_def w301_def keep_200 drop_4000

lemma upt_02: "[0..<2] = [0, 1]" by (simp add: upt_rec)
lemma upt_23: "[2..<3] = [2]" by (simp add: upt_rec)
lemma upt_04: "[0..<4] = [0, 1, 2, 3]" by (simp add: upt_rec)
lemma upt_14: "[1..<4] = [1, 2, 3]" by (simp add: upt_rec)
lemma upt_Suc04: "[Suc 0..<4] = [1, 2, 3]" by (simp add: upt_rec)

lemma rep5: "replicate 5 x = [x, x, x, x, x]" by (simp add: numeral_eq_Suc)

lemmas unpack_defs = memsetU_def unpackBody_def eVal_def mean_one enc_one mean_two enc_two
  upt_04 upt_14 upt_Suc04 rep5

lemma g00: "gatherOverlaps decodeEvalue 1 0 0 run0 = Inr (run0, [(0, 4, w200), (1, 3, w4000)])"
  by (simp add: gather_defs run_defs upt_02)

lemma agg1: "intervalDepth [(0, 4, w200)] = [\<lparr>iv_lo = 0, iv_hi = 4, iv_value = dadd 0 w200, iv_depth = 1\<rparr>]"
  by (simp add: intervalDepth_def endpoints_def covering_def)

lemma agg2: "intervalDepth [(0, 4, w200), (1, 3, w4000)] =
  [\<lparr>iv_lo = 0, iv_hi = 1, iv_value = dadd 0 w200, iv_depth = 1\<rparr>,
   \<lparr>iv_lo = 1, iv_hi = 4, iv_value = dadd (dadd 0 w200) w4000, iv_depth = 2\<rparr>]"
  by (simp add: intervalDepth_def endpoints_def covering_def)

lemma p00: "processRead decodeEvalue encodeEvalue intervalDepth 1 0 0 run0 = Inr run0a"
  apply (simp only: processRead_def g00)
  apply (simp add: run_defs run0a_def agg2 unpack_defs)
  done

lemma g01a: "gatherOverlaps decodeEvalue 1 0 (Suc 0) run0a = Inr (run0a, [(0, 4, w200)])"
  by (simp add: gather_defs run_defs run0a_def upt_23)

lemma p01: "processRead decodeEvalue encodeEvalue intervalDepth 1 0 (Suc 0) run0a = Inr run0b"
  apply (simp only: processRead_def g01a)
  apply (simp add: run_defs run0a_def run0b_def agg1 unpack_defs)
  done

lemma first0: "forEach (processRead decodeEvalue encodeEvalue intervalDepth 1 0) [0..<unat (2 :: 32 word)] run0 = Inr run0b"
  by (simp add: upt_02 p00 p01)

lemma second0: "forEach sumBody [0..<unat (2 :: 32 word)] run0b = Inr run1"
  by (simp add: upt_02 sumBody_def sumProfile_def run0b_def run_defs upt_14 upt_Suc04)

lemma it0: "recomputeErrorProfile decodeEvalue encodeEvalue intervalDepth 1 2 0 run0 = Inr run1"
  by (simp only: recomputeErrorProfile_def first0 second0 sum.case)

subsection \<open>A concrete run: iterations 1 to 3\<close>

text \<open>In iteration 1 the second overlap of read 1 is discarded: its estimate is
  \<open>1725 / 10000\<close> and \<open>0.1725 + 0.03 < 0.4\<close>. The state after iteration 1 is a fixed point
  of the later iterations, and the output pass then writes the first and the third
  record.\<close>

lemmas run1_defs = run1_def run1a_def run2_def mkOvl_def

lemma g10: "gatherOverlaps decodeEvalue 1 1 0 run1 = Inr (run1a\<lparr>readProfile := readProfile run1\<rparr>, [(0, 4, w200)])"
  by (simp add: gather_defs run1_defs upt_02)

lemma p10: "processRead decodeEvalue encodeEvalue intervalDepth 1 1 0 run1 = Inr run1a"
  apply (simp only: processRead_def g10)
  apply (simp add: run1_defs agg1 unpack_defs)
  done

lemma g11: "gatherOverlaps decodeEvalue 1 1 (Suc 0) run1a = Inr (run1a, [(0, 4, w200)])"
  by (simp add: gather_defs run1_defs upt_23)

lemma p11: "processRead decodeEvalue encodeEvalue intervalDepth 1 1 (Suc 0) run1a = Inr run1a"
  apply (simp only: processRead_def g11)
  apply (simp add: run1_defs agg1 unpack_defs)
  done

lemma first1: "forEach (processRead decodeEvalue encodeEvalue intervalDepth 1 1) [0..<unat (2 :: 32 word)] run1 = Inr run1a"
  by (simp add: upt_02 p10 p11)

lemma second1: "forEach sumBody [0..<unat (2 :: 32 word)] run1a = Inr run2"
  by (simp add: upt_02 sumBody_def sumProfile_def run1_defs upt_14 upt_Suc04)

lemma it1: "recomputeErrorProfile decodeEvalue encodeEvalue intervalDepth 1 2 1 run1 = Inr run2"
  by (simp only: recomputeErrorProfile_def first1 second1 sum.case)

lemma g20: "gatherOverlaps decodeEvalue 1 iter 0 run2 = Inr (run2, [(0, 4, w200)])"
  by (cases "0 < iter") (simp_all add: gather_defs run1_defs upt_02)

lemma p20: "processRead decodeEvalue encodeEvalue intervalDepth 1 iter 0 run2 = Inr run2"
  apply (simp only: processRead_def g20)
  apply (simp add: run1_defs agg1 unpack_defs)
  done

lemma g21: "gatherOverlaps decodeEvalue 1 iter (Suc 0) run2 = Inr (run2, [(0, 4, w200)])"
  by (cases "0 < iter") (simp_all add: gather_defs run1_defs upt_23)

lemma p21: "processRead decodeEvalue encodeEvalue intervalDepth 1 iter (Suc 0) run2 = Inr run2"
  apply (simp only: processRead_def g21)
  apply (simp add: run1_defs agg1 unpack_defs)
  done

lemma first2:
  "forEach (processRead decodeEvalue encodeEvalue intervalDepth 1 iter)
     [0..<unat (2 :: 32 word)] run2 = Inr run2"
  by (simp add: upt_02 p20 p21)

lemma second2: "forEach sumBody [0..<unat (2 :: 32 word)] run2 = Inr run2"
  by (simp add: upt_02 sumBody_def sumProfile_def run1_defs upt_14 upt_Suc04)

lemma it2:
  "recomputeErrorProfile decodeEvalue encodeEvalue intervalDepth 1 2 iter run2 = Inr run2"
  by (simp only: recomputeErrorProfile_def first2 second2 sum.case)

lemma run_all: "runIterations decodeEvalue encodeEvalue intervalDepth 1 2 run0 = Inr run2"
  by (simp add: runIterations_def upt_04 it0 it1 it2)

lemma run_fix: "runIterations decodeEvalue encodeEvalue intervalDepth 1 2 run2 = Inr run2"
  by (simp add: runIterations_def upt_04 it2)

lemma out2: "outputOverlaps 3 store0 (overlaps run2) = Inr [rec0, rec2]"
  by (simp add: outputOverlaps_def outputBody_def store0_def rec0_def rec1_def rec2_def
      run1_defs b_iid_of_def Let_def)

lemma engine0: "engineRun decodeEvalue encodeEvalue intervalDepth 1 2 3 store0 run0 = Inr (run2, [rec0, rec2])"
  by (simp only: engineRun_def run_all out2 sum.case)

lemma engine2: "engineRun decodeEvalue encodeEvalue intervalDepth 1 2 3 store0 run2 = Inr (run2, [rec0, rec2])"
  by (simp only: engineRun_def run_fix out2 sum.case)

subsection \<open>A concrete run with an ill-formed span\<close>

text \<open>Iteration 0 completes on an overlap whose span on the b read begins at 3 and ends at
  2; iteration 1 stops on the same overlap with a failed assertion.\<close>

lemmas bad_defs = bad0_def bad0a_def bad0b_def bad1_def mkOvl_def

lemma upt_01: "[0..<1] = [0]" by (simp add: upt_rec)
lemma upt_03: "[0..<3] = [0, 1, 2]" by (simp add: upt_rec)
lemma upt_12: "[1..<2] = [1]" by (simp add: upt_rec)
lemma upt_Suc02: "[Suc 0..<2] = [1]" by (simp add: upt_rec)
lemma rep3: "replicate 3 x = [x, x, x]" by (simp add: numeral_eq_Suc)

lemma agg0: "intervalDepth [] = []"
  by (simp add: intervalDepth_def endpoints_def)

lemma agg3: "intervalDepth [(0, 3, w200)] = [\<lparr>iv_lo = 0, iv_hi = 3, iv_value = dadd 0 w200, iv_depth = 1\<rparr>]"
  by (simp add: intervalDepth_def endpoints_def covering_def)

lemma badSpan: "ESToverlapSpan (overlaps bad0 ! 0) (readProfile bad0) 1
    = Inr \<lparr>span_a_iid = 1, span_b_iid = 2, a_beg = 0, a_end = 3, b_beg = 3, b_end = 2,
         fwd = 1, span_erate = 200\<rparr>"
  by (simp add: ESToverlapSpan_def spanOf_def b_iid_of_def bad_defs Let_def)

lemma gb0: "gatherOverlaps decodeEvalue 1 0 0 bad0 = Inr (bad0, [(0, 3, w200)])"
  by (simp add: gather_defs bad_defs upt_01)

lemma pb0: "processRead decodeEvalue encodeEvalue intervalDepth 1 0 0 bad0 = Inr bad0a"
  apply (simp only: processRead_def gb0)
  apply (simp add: bad_defs agg3 unpack_defs upt_03)
  done

lemma gb1: "gatherOverlaps decodeEvalue 1 0 (Suc 0) bad0a = Inr (bad0a, [])"
  by (simp add: gather_defs bad_defs)

lemma pb1: "processRead decodeEvalue encodeEvalue intervalDepth 1 0 (Suc 0) bad0a = Inr bad0b"
  apply (simp only: processRead_def gb1)
  apply (simp add: bad_defs agg0 unpack_defs rep3)
  done

lemma firstb: "forEach (processRead decodeEvalue encodeEvalue intervalDepth 1 0) [0..<unat (2 :: 32 word)] bad0 = Inr bad0b"
  by (simp add: upt_02 pb0 pb1)

lemma secondb: "forEach sumBody [0..<unat (2 :: 32 word)] bad0b = Inr bad1"
  by (simp add: upt_02 sumBody_def sumProfile_def bad_defs upt_14 upt_Suc04 upt_12 upt_Suc02)

lemma itb0: "recomputeErrorProfile decodeEvalue encodeEvalue intervalDepth 1 2 0 bad0 = Inr bad1"
  by (simp only: recomputeErrorProfile_def firstb secondb sum.case)

lemma gb2: "gatherOverlaps decodeEvalue 1 1 0 bad1 = Inl AssertFailed"
  by (simp add: gather_defs bad_defs upt_01)

lemma itb1: "recomputeErrorProfile decodeEvalue encodeEvalue intervalDepth 1 2 1 bad1 = Inl AssertFailed"
  by (simp add: recomputeErrorProfile_def upt_02 processRead_def gb2) (simp add: bad_defs)

subsection \<open>A concrete run with odd range sums\<close>

text \<open>Iteration 0 gives read 1 the mean 151 on its base and read 2 the mean 0. In
  iteration 1 both range sums of the overlap are 1: the estimate is the decoding of
  \<open>1 div 2 + 1 div 2 = 0\<close>, and the overlap is discarded.\<close>

lemmas odd_defs = odd0_def odd0a_def odd0b_def odd1_def odd1a_def odd2_def mkOvl_def

lemma upt_11: "[1..<1] = []" by simp
lemma upt_Suc01: "[Suc 0..<1] = []" by simp
lemma rep2: "replicate 2 x = [x, x]" by (simp add: numeral_eq_Suc)

lemma agg301: "intervalDepth [(0, 1, w301)] = [\<lparr>iv_lo = 0, iv_hi = 1, iv_value = dadd 0 w301, iv_depth = 1\<rparr>]"
  by (simp add: intervalDepth_def endpoints_def covering_def)

lemma go0: "gatherOverlaps decodeEvalue 1 0 0 odd0 = Inr (odd0, [(0, 1, w301)])"
  by (simp add: gather_defs odd_defs upt_01)

lemma po0: "processRead decodeEvalue encodeEvalue intervalDepth 1 0 0 odd0 = Inr odd0a"
  apply (simp only: processRead_def go0)
  apply (simp add: odd_defs agg301 memsetU_def unpackBody_def eVal_def mean_301 enc_301 upt_01 rep2)
  done

lemma go1: "gatherOverlaps decodeEvalue 1 iter (Suc 0) odd0a = Inr (odd0a, [])"
  by (simp add: gather_defs odd_defs)

lemma po1: "processRead decodeEvalue encodeEvalue intervalDepth 1 0 (Suc 0) odd0a = Inr odd0b"
  apply (simp only: processRead_def go1)
  apply (simp add: odd_defs agg0 memsetU_def rep2)
  done

lemma firsto: "forEach (processRead decodeEvalue encodeEvalue intervalDepth 1 0) [0..<unat (2 :: 32 word)] odd0 = Inr odd0b"
  by (simp add: upt_02 po0 po1)

lemma secondo: "forEach sumBody [0..<unat (2 :: 32 word)] odd0b = Inr odd1"
  by (simp add: upt_02 sumBody_def sumProfile_def odd_defs upt_11 upt_Suc01)

lemma ito0: "recomputeErrorProfile decodeEvalue encodeEvalue intervalDepth 1 2 0 odd0 = Inr odd1"
  by (simp only: recomputeErrorProfile_def firsto secondo sum.case)

lemma go2: "gatherOverlaps decodeEvalue 1 1 0 odd1 = Inr (odd1a\<lparr>readProfile := readProfile odd1\<rparr>, [])"
  by (simp add: gather_defs odd_defs upt_01 drop_301)

lemma po2: "processRead decodeEvalue encodeEvalue intervalDepth 1 1 0 odd1 = Inr odd1a"
  apply (simp only: processRead_def go2)
  apply (simp add: odd_defs agg0 memsetU_def rep2)
  done

lemma go3: "gatherOverlaps decodeEvalue 1 1 (Suc 0) odd1a = Inr (odd1a, [])"
  by (simp add: gather_defs odd_defs)

lemma po3: "processRead decodeEvalue encodeEvalue intervalDepth 1 1 (Suc 0) odd1a = Inr odd1a"
  apply (simp only: processRead_def go3)
  apply (simp add: odd_defs agg0 memsetU_def rep2)
  done

lemma firsto1: "forEach (processRead decodeEvalue encodeEvalue intervalDepth 1 1) [0..<unat (2 :: 32 word)] odd1 = Inr odd1a"
  by (simp add: upt_02 po2 po3)

lemma secondo1: "forEach sumBody [0..<unat (2 :: 32 word)] odd1a = Inr odd2"
  by (simp add: upt_02 sumBody_def sumProfile_def odd_defs upt_11 upt_Suc01)

lemma ito1: "recomputeErrorProfile decodeEvalue encodeEvalue intervalDepth 1 2 1 odd1 = Inr odd2"
  by (simp only: recomputeErrorProfile_def firsto1 secondo1 sum.case)

lemma oddSpanIn:
  "spanIn (readProfile odd1) 1 (overlaps odd1 ! 0)
     = \<lparr>span_a_iid = 1, span_b_iid = 2, a_beg = 0, a_end = 1, b_beg = 0, b_end = 1,
        fwd = 1, span_erate = 301\<rparr>"
  by (simp add: spanIn_def spanOf_def b_iid_of_def odd_defs)

subsection \<open>A concrete run with loose spans\<close>

text \<open>Iteration 0 completes on the three overlaps: read 1 gets the mean 100 on its four
  bases.\<close>

lemmas loose_defs = loose0_def loose0a_def loose0b_def loose1_def mkOvl_def

lemma upt_34: "[3..<4] = [3]" by (simp add: upt_rec)

lemma looseSpans:
  "ESToverlapSpan (overlaps loose0 ! 0) (readProfile loose0) 1
     = Inr \<lparr>span_a_iid = 1, span_b_iid = 2, a_beg = 0, a_end = 3, b_beg = 3, b_end = 2,
          fwd = 1, span_erate = 200\<rparr>
   \<and> ESToverlapSpan (overlaps loose0 ! 1) (readProfile loose0) 1
     = Inr \<lparr>span_a_iid = 1, span_b_iid = 2, a_beg = 0, a_end = 4, b_beg = 0, b_end = 4294967295,
          fwd = 1, span_erate = 200\<rparr>
   \<and> ESToverlapSpan (overlaps loose0 ! 2) (readProfile loose0) 1
     = Inr \<lparr>span_a_iid = 1, span_b_iid = 2, a_beg = 4, a_end = 4, b_beg = 0, b_end = 2,
          fwd = 1, span_erate = 200\<rparr>"
  by (simp add: ESToverlapSpan_def spanOf_def b_iid_of_def loose_defs Let_def)

lemma aggL: "intervalDepth [(0, 3, w200), (0, 4, w200), (4, 0, w200)] =
  [\<lparr>iv_lo = 0, iv_hi = 3, iv_value = dadd (dadd 0 w200) w200, iv_depth = 2\<rparr>,
   \<lparr>iv_lo = 3, iv_hi = 4, iv_value = dadd 0 w200, iv_depth = 1\<rparr>]"
  by (simp add: intervalDepth_def endpoints_def covering_def)

lemma gL0: "gatherOverlaps decodeEvalue 1 0 0 loose0
    = Inr (loose0, [(0, 3, w200), (0, 4, w200), (4, 0, w200)])"
  by (simp add: gather_defs loose_defs upt_03)

lemma pL0: "processRead decodeEvalue encodeEvalue intervalDepth 1 0 0 loose0 = Inr loose0a"
  apply (simp only: processRead_def gL0)
  apply (simp add: loose_defs aggL unpack_defs mean_pair enc_pair upt_03 upt_34)
  done

lemma gL1: "gatherOverlaps decodeEvalue 1 0 (Suc 0) loose0a = Inr (loose0a, [])"
  by (simp add: gather_defs loose_defs)

lemma pL1: "processRead decodeEvalue encodeEvalue intervalDepth 1 0 (Suc 0) loose0a = Inr loose0b"
  apply (simp only: processRead_def gL1)
  apply (simp add: loose_defs agg0 unpack_defs rep3)
  done

lemma firstL: "forEach (processRead decodeEvalue encodeEvalue intervalDepth 1 0) [0..<unat (2 :: 32 word)] loose0 = Inr loose0b"
  by (simp add: upt_02 pL0 pL1)

lemma secondL: "forEach sumBody [0..<unat (2 :: 32 word)] loose0b = Inr loose1"
  by (simp add: upt_02 sumBody_def sumProfile_def loose_defs upt_14 upt_Suc04 upt_12 upt_Suc02)

lemma itL0: "recomputeErrorProfile decodeEvalue encodeEvalue intervalDepth 1 2 0 loose0 = Inr loose1"
  by (simp only: recomputeErrorProfile_def firstL secondL sum.case)

subsection \<open>The prefix sums\<close>

lemma rebuild_read:
  assumes run: "recomputeErrorProfile dec enc agg iidMin numIIDs iter st = Inr st'"
    and iid: "iid < unat numIIDs"
    and act: "seqLen (readProfile st' ! iid) \<noteq> 0"
  shows "\<exists>m S. unat (seqLen (readProfile st' ! iid)) = Suc m \<and> Suc m \<le> length S
     \<and> errorMeanS (readProfile st' ! iid)
         = sumProfile (Suc m) (errorMeanU (readProfile st' ! iid)) S"
proof -
  from recompute_Inr [OF run] obtain st1 where
    2: "forEach sumBody [0 ..< unat numIIDs] st1 = Inr st'" by blast
  note L = sum_loop [OF 2 distinct_upt]
  have mem: "iid \<in> set [0 ..< unat numIIDs]" using iid by simp
  have sq: "seqLen (readProfile st1 ! iid) = seqLen (readProfile st' ! iid)"
    and eu: "errorMeanU (readProfile st1 ! iid) = errorMeanU (readProfile st' ! iid)"
    using L by simp_all
  have act1: "seqLen (readProfile st1 ! iid) \<noteq> 0" using act sq by simp
  from L mem act1 have
    n: "unat (seqLen (readProfile st1 ! iid)) \<le> length (errorMeanS (readProfile st1 ! iid))"
    and e: "errorMeanS (readProfile st' ! iid)
                   = sumProfile (unat (seqLen (readProfile st1 ! iid)))
                       (errorMeanU (readProfile st1 ! iid)) (errorMeanS (readProfile st1 ! iid))"
    by blast+
  have "unat (seqLen (readProfile st' ! iid)) \<noteq> 0" using act by (simp add: unat_eq_0)
  then obtain m where m: "unat (seqLen (readProfile st' ! iid)) = Suc m"
    by (cases "unat (seqLen (readProfile st' ! iid))") simp_all
  show ?thesis using m n e unfolding sq eu by metis
qed

text \<open>
  Claim C1, as amended. After the second pass of an iteration, for every read of the range
  with \<open>seqLen > 0\<close> and every index \<open>j < seqLen\<close>: \<open>errorMeanS[j]\<close> is defined and is the
  sum of \<open>errorMeanU[0]\<close> up to and including \<open>errorMeanU[j]\<close>, taken in \<^verbatim>\<open>uint32\<close>; in
  particular \<open>errorMeanS[0] = errorMeanU[0]\<close>; and when that sum stays below \<open>2 ^ 32\<close> the
  values up to index \<open>j\<close> are non-decreasing.
\<close>

theorem errorSum_rebuild:
  assumes run: "recomputeErrorProfile dec enc agg iidMin numIIDs iter st = Inr st'"
    and iid: "iid < unat numIIDs"
    and act: "seqLen (readProfile st' ! iid) \<noteq> 0"
    and j: "j < unat (seqLen (readProfile st' ! iid))"
  shows "j < length (errorMeanS (readProfile st' ! iid))
     \<and> errorMeanS (readProfile st' ! iid) ! j
         = (\<Sum>k\<le>j. ucast (errorMeanU (readProfile st' ! iid) ! k))
     \<and> errorMeanS (readProfile st' ! iid) ! 0 = ucast (errorMeanU (readProfile st' ! iid) ! 0)
     \<and> ((\<Sum>k\<le>j. unat (errorMeanU (readProfile st' ! iid) ! k)) < 2 ^ 32 \<longrightarrow>
          (\<forall>i\<le>j. errorMeanS (readProfile st' ! iid) ! i \<le> errorMeanS (readProfile st' ! iid) ! j))"
proof -
  let ?U = "errorMeanU (readProfile st' ! iid)"
  let ?S = "errorMeanS (readProfile st' ! iid)"
  from rebuild_read [OF run iid act] obtain m S where
    m: "unat (seqLen (readProfile st' ! iid)) = Suc m" and len: "Suc m \<le> length S"
    and e: "?S = sumProfile (Suc m) ?U S" by blast
  note P = sumProfile_nth [OF len, of ?U]
  have jm: "j \<le> m" using j m by simp
  have 1: "j < length ?S" using P e jm len by simp
  have cf: "\<And>i. i \<le> m \<Longrightarrow> ?S ! i = (\<Sum>k\<le>i. ucast (?U ! k))" using P e by simp
  have 2: "?S ! j = (\<Sum>k\<le>j. ucast (?U ! k))" using cf jm by simp
  have 3: "?S ! 0 = ucast (?U ! 0)" using cf [of 0] by simp
  have 4: "(\<Sum>k\<le>j. unat (?U ! k)) < 2 ^ 32 \<longrightarrow> (\<forall>i\<le>j. ?S ! i \<le> ?S ! j)"
  proof (intro impI allI)
    fix i assume b: "(\<Sum>k\<le>j. unat (?U ! k)) < 2 ^ 32" and ij: "i \<le> j"
    have le: "(\<Sum>k\<le>i. unat (?U ! k)) \<le> (\<Sum>k\<le>j. unat (?U ! k))"
      using ij by (intro sum_mono2) auto
    have uj: "unat (?S ! j) = (\<Sum>k\<le>j. unat (?U ! k))"
      unfolding 2 unat_ucast_sum using b by simp
    have ui: "unat (?S ! i) = (\<Sum>k\<le>i. unat (?U ! k))"
      unfolding cf [of i, OF le_trans [OF ij jm]] unat_ucast_sum using b le by simp
    show "?S ! i \<le> ?S ! j" unfolding word_le_nat_alt ui uj by (rule le)
  qed
  from 1 2 3 4 show ?thesis by blast
qed

theorem errorSum_rebuild_witness:
  "recomputeErrorProfile decodeEvalue encodeEvalue intervalDepth 1 2 0 run0 = Inr run1
   \<and> 0 < unat (2 :: 32 word)
   \<and> seqLen (readProfile run1 ! 0) \<noteq> 0
   \<and> 3 < unat (seqLen (readProfile run1 ! 0))
   \<and> errorMeanS (readProfile run1 ! 0) ! 3
       = (\<Sum>k\<le>3. ucast (errorMeanU (readProfile run1 ! 0) ! k))
   \<and> errorMeanS (readProfile run1 ! 0) ! 3 = 3250"
proof -
  have h: "0 < unat (2 :: 32 word)" "seqLen (readProfile run1 ! 0) \<noteq> 0"
    "3 < unat (seqLen (readProfile run1 ! 0))"
    by (simp_all add: run1_def)
  have v: "errorMeanS (readProfile run1 ! 0) ! 3 = 3250" by (simp add: run1_def)
  from errorSum_rebuild [OF it0 h] have
    "errorMeanS (readProfile run1 ! 0) ! 3
       = (\<Sum>k\<le>3. ucast (errorMeanU (readProfile run1 ! 0) ! k))" by blast
  with it0 h v show ?thesis by blast
qed

theorem errorSum_rebuild_counterexample:
  "recomputeErrorProfile decodeEvalue encodeEvalue intervalDepth 1 2 0 run0 = Inr run1
   \<and> seqLen (readProfile run1 ! 0) = 4
   \<and> errorMeanS (readProfile run1 ! 0) ! 0 = 100
   \<and> errorMeanS (readProfile run1 ! 0) ! 0 \<noteq> 0
   \<and> errorMeanS (readProfile run1 ! 0) ! 4 = errorMeanS (readProfile run0 ! 0) ! 4"
  using it0 by (simp add: run1_def run0_def)

text \<open>The second pass never writes index \<open>seqLen\<close>, and neither does the first: after an
  iteration \<open>errorMeanS[seqLen]\<close> of an active read is what it was before.\<close>

lemma errorSum_last_kept:
  assumes run: "recomputeErrorProfile dec enc agg iidMin numIIDs iter st = Inr st'"
    and iid: "iid < unat numIIDs"
    and act: "seqLen (readProfile st ! iid) \<noteq> 0"
  shows "errorMeanS (readProfile st' ! iid) ! unat (seqLen (readProfile st ! iid))
       = errorMeanS (readProfile st ! iid) ! unat (seqLen (readProfile st ! iid))"
proof -
  from recompute_Inr [OF run] obtain st1 where
    1: "forEach (processRead dec enc agg iidMin iter) [0 ..< unat numIIDs] st = Inr st1"
    and 2: "forEach sumBody [0 ..< unat numIIDs] st1 = Inr st'" by blast
  from firstPass_evolves [OF 1] have s: "sameS (readProfile st) (readProfile st1)"
    by (simp add: evolves_def)
  then have sq: "seqLen (readProfile st1 ! iid) = seqLen (readProfile st ! iid)"
    and es: "errorMeanS (readProfile st1 ! iid) = errorMeanS (readProfile st ! iid)"
    by (simp_all add: sameS_def)
  note L = sum_loop [OF 2 distinct_upt]
  have mem: "iid \<in> set [0 ..< unat numIIDs]" using iid by simp
  have act1: "seqLen (readProfile st1 ! iid) \<noteq> 0" using act sq by simp
  from L mem act1 have
    n: "unat (seqLen (readProfile st1 ! iid)) \<le> length (errorMeanS (readProfile st1 ! iid))"
    and e: "errorMeanS (readProfile st' ! iid)
                   = sumProfile (unat (seqLen (readProfile st1 ! iid)))
                       (errorMeanU (readProfile st1 ! iid)) (errorMeanS (readProfile st1 ! iid))"
    by blast+
  have "unat (seqLen (readProfile st ! iid)) \<noteq> 0" using act by (simp add: unat_eq_0)
  then obtain m where m: "unat (seqLen (readProfile st ! iid)) = Suc m"
    by (cases "unat (seqLen (readProfile st ! iid))") simp_all
  from n have len: "Suc m \<le> length (errorMeanS (readProfile st ! iid))"
    unfolding sq es m .
  from sumProfile_nth [OF len, of "errorMeanU (readProfile st1 ! iid)"]
  have "sumProfile (Suc m) (errorMeanU (readProfile st1 ! iid))
          (errorMeanS (readProfile st ! iid)) ! Suc m
      = errorMeanS (readProfile st ! iid) ! Suc m" by simp
  then show ?thesis unfolding e sq es m .
qed

subsection \<open>The estimate\<close>

lemma unat_ucast_32_64: "unat (ucast (x :: 32 word) :: 64 word) = unat x"
proof -
  have "unat x < 2 ^ 32" using unsigned_less [of x, where ?'a = nat] by simp
  then have "unat x < 2 ^ 64" by simp
  then show ?thesis by (simp add: unsigned_ucast_eq take_bit_nat_eq_self)
qed

lemma unat_estErrorSum:
  "unat (estErrorSum sae sab sbe sbb) = unat (sae - sab) div 2 + unat (sbe - sbb) div 2"
proof -
  have a: "unat (ucast (sae - sab) :: 64 word) = unat (sae - sab)"
    by (rule unat_ucast_32_64)
  have b: "unat (ucast (sbe - sbb) :: 64 word) = unat (sbe - sbb)"
    by (rule unat_ucast_32_64)
  have la: "unat (sae - sab) < 2 ^ 32" using unsigned_less [of "sae - sab", where ?'a = nat] by simp
  have lb: "unat (sbe - sbb) < 2 ^ 32" using unsigned_less [of "sbe - sbb", where ?'a = nat] by simp
  have da: "unat ((ucast (sae - sab) :: 64 word) div 2) = unat (sae - sab) div 2"
    by (simp add: unat_div a)
  have db: "unat ((ucast (sbe - sbb) :: 64 word) div 2) = unat (sbe - sbb) div 2"
    by (simp add: unat_div b)
  have lt: "unat (sae - sab) div 2 + unat (sbe - sbb) div 2 < 2 ^ 64" using la lb by simp
  have "unat ((ucast (sae - sab) :: 64 word) div 2 + (ucast (sbe - sbb) :: 64 word) div 2)
      = (unat (sae - sab) div 2 + unat (sbe - sbb) div 2) mod 2 ^ 64"
    unfolding unat_word_ariths(1) [of "ucast (sae - sab) div 2" "ucast (sbe - sbb) div 2"] da db
    by simp
  also have "\<dots> = unat (sae - sab) div 2 + unat (sbe - sbb) div 2"
    using lt by simp
  finally show ?thesis unfolding estErrorSum_def Let_def .
qed

lemma half_sum:
  "(a :: nat) div 2 + b div 2 = (a + b) div 2 - (if odd a \<and> odd b then 1 else 0)"
  by (auto elim!: oddE evenE)

lemma errorMeanS_at_Inr:
  "unat r < length prof \<Longrightarrow> unat i < length (errorMeanS (prof ! unat r))
     \<Longrightarrow> errorMeanS_at prof r i = Inr (errorMeanS (prof ! unat r) ! unat i)"
  by (simp add: errorMeanS_at_def)

text \<open>
  Claim C2, as amended. For every span with \<open>a_beg < a_end\<close> and \<open>b_beg < b_end\<close> whose
  profile reads are in range, \<^verbatim>\<open>computeEstimatedErate\<close> returns the decoding of
  \<open>A div 2 + B div 2\<close>, where \<open>A\<close> and \<open>B\<close> are the range sums
  \<open>errorSum[end] - errorSum[begin]\<close> of the two reads, each taken in \<^verbatim>\<open>uint32\<close>: each
  range sum is halved before the two are added. The argument equals \<open>(A + B) div 2\<close>
  unless both range sums are odd, and is one less then.
\<close>

theorem estimate_formula:
  assumes ab: "a_beg sp < a_end sp" and bb: "b_beg sp < b_end sp"
    and ra: "unat (span_a_iid sp - iidMin) < length prof"
    and ea: "unat (a_end sp) < length (errorMeanS (prof ! unat (span_a_iid sp - iidMin)))"
    and rb: "unat (span_b_iid sp - iidMin) < length prof"
    and eb: "unat (b_end sp) < length (errorMeanS (prof ! unat (span_b_iid sp - iidMin)))"
  shows "computeEstimatedErate dec iidMin sp prof
      = Inr (dec (unat (sumOverSpan prof (span_a_iid sp - iidMin) (a_beg sp) (a_end sp)) div 2
                 + unat (sumOverSpan prof (span_b_iid sp - iidMin) (b_beg sp) (b_end sp)) div 2))
   \<and> unat (sumOverSpan prof (span_a_iid sp - iidMin) (a_beg sp) (a_end sp)) div 2
       + unat (sumOverSpan prof (span_b_iid sp - iidMin) (b_beg sp) (b_end sp)) div 2
     = (unat (sumOverSpan prof (span_a_iid sp - iidMin) (a_beg sp) (a_end sp))
        + unat (sumOverSpan prof (span_b_iid sp - iidMin) (b_beg sp) (b_end sp))) div 2
       - (if odd (unat (sumOverSpan prof (span_a_iid sp - iidMin) (a_beg sp) (a_end sp)))
             \<and> odd (unat (sumOverSpan prof (span_b_iid sp - iidMin) (b_beg sp) (b_end sp)))
          then 1 else 0)"
proof -
  have ba: "unat (a_beg sp) < length (errorMeanS (prof ! unat (span_a_iid sp - iidMin)))"
    using ab ea by (simp add: word_less_nat_alt)
  have bbb: "unat (b_beg sp) < length (errorMeanS (prof ! unat (span_b_iid sp - iidMin)))"
    using bb eb by (simp add: word_less_nat_alt)
  have 1: "computeEstimatedErate dec iidMin sp prof
      = Inr (dec (unat (sumOverSpan prof (span_a_iid sp - iidMin) (a_beg sp) (a_end sp)) div 2
                 + unat (sumOverSpan prof (span_b_iid sp - iidMin) (b_beg sp) (b_end sp)) div 2))"
    unfolding computeEstimatedErate_def Let_def
    using ab bb
    by (simp add: errorMeanS_at_Inr [OF ra ea] errorMeanS_at_Inr [OF ra ba]
        errorMeanS_at_Inr [OF rb eb] errorMeanS_at_Inr [OF rb bbb]
        unat_estErrorSum sumOverSpan_def)
  show ?thesis using 1 half_sum by blast
qed

theorem estimate_formula_witness:
  "a_beg oddSpan < a_end oddSpan \<and> b_beg oddSpan < b_end oddSpan
   \<and> unat (span_a_iid oddSpan - 1) < length oddProfile
   \<and> unat (a_end oddSpan) < length (errorMeanS (oddProfile ! unat (span_a_iid oddSpan - 1)))
   \<and> unat (span_b_iid oddSpan - 1) < length oddProfile
   \<and> unat (b_end oddSpan) < length (errorMeanS (oddProfile ! unat (span_b_iid oddSpan - 1)))
   \<and> computeEstimatedErate decodeEvalue 1 oddSpan oddProfile
      = Inr (decodeEvalue
          (unat (sumOverSpan oddProfile (span_a_iid oddSpan - 1) (a_beg oddSpan) (a_end oddSpan)) div 2
           + unat (sumOverSpan oddProfile (span_b_iid oddSpan - 1) (b_beg oddSpan) (b_end oddSpan)) div 2))"
proof -
  have h: "a_beg oddSpan < a_end oddSpan" "b_beg oddSpan < b_end oddSpan"
    "unat (span_a_iid oddSpan - 1) < length oddProfile"
    "unat (a_end oddSpan) < length (errorMeanS (oddProfile ! unat (span_a_iid oddSpan - 1)))"
    "unat (span_b_iid oddSpan - 1) < length oddProfile"
    "unat (b_end oddSpan) < length (errorMeanS (oddProfile ! unat (span_b_iid oddSpan - 1)))"
    by (simp_all add: oddSpan_def oddProfile_def spanOf_def mkOvl_def b_iid_of_def)
  from estimate_formula [OF h, of decodeEvalue] h show ?thesis by blast
qed

theorem estimate_formula_counterexample:
  "computeEstimatedErate decodeEvalue 1 oddSpan oddProfile = Inr 0
   \<and> sumOverSpan oddProfile (span_a_iid oddSpan - 1) (a_beg oddSpan) (a_end oddSpan) = 1
   \<and> sumOverSpan oddProfile (span_b_iid oddSpan - 1) (b_beg oddSpan) (b_end oddSpan) = 1
   \<and> specEstimate decodeEvalue 1 oddSpan oddProfile = decodeEvalue 1
   \<and> 0 < decodeEvalue 1
   \<and> computeEstimatedErate decodeEvalue 1 oddSpan oddProfile
       \<noteq> Inr (specEstimate decodeEvalue 1 oddSpan oddProfile)"
  by (simp add: computeEstimatedErate_def errorMeanS_at_def estErrorSum_def specEstimate_def
      sumOverSpan_def oddSpan_def oddProfile_def spanOf_def mkOvl_def
      b_iid_of_def double_defs)

subsection \<open>What an iteration may change\<close>

lemma discarded_fields:
  assumes "(ovl' :: ESToverlap) = ovl\<lparr>discarded := d\<rparr>"
  shows "a_iid ovl' = a_iid ovl \<and> b_iid_hi ovl' = b_iid_hi ovl \<and> b_iid_lo ovl' = b_iid_lo ovl
     \<and> a_hang ovl' = a_hang ovl \<and> b_hang ovl' = b_hang ovl \<and> erate ovl' = erate ovl
     \<and> flipped ovl' = flipped ovl"
  using assms by simp

text \<open>
  Claim C10. A call of \<^verbatim>\<open>recomputeErrorProfile\<close> leaves the overlap index and the number
  of overlaps as they were, and leaves \<open>a_iid\<close>, both parts of \<open>b_iid\<close>, \<open>a_hang\<close>, \<open>b_hang\<close>,
  \<open>erate\<close> and \<open>flipped\<close> of every overlap as they were: only \<open>discarded\<close> may differ. The
  work item of read \<open>iid\<close> changes the \<open>discarded\<close> bit only of overlaps of its own slice,
  only by setting it, and only when the overlap's \<open>a_iid\<close> is the read \<open>iid + iidMin\<close>.
\<close>

theorem iteration_frame:
  "(recomputeErrorProfile dec enc agg iidMin numIIDs iter st = Inr st' \<longrightarrow>
      overlapIndex st' = overlapIndex st
      \<and> length (overlaps st') = length (overlaps st)
      \<and> (\<forall>j. a_iid (overlaps st' ! j) = a_iid (overlaps st ! j)
             \<and> b_iid_hi (overlaps st' ! j) = b_iid_hi (overlaps st ! j)
             \<and> b_iid_lo (overlaps st' ! j) = b_iid_lo (overlaps st ! j)
             \<and> a_hang (overlaps st' ! j) = a_hang (overlaps st ! j)
             \<and> b_hang (overlaps st' ! j) = b_hang (overlaps st ! j)
             \<and> erate (overlaps st' ! j) = erate (overlaps st ! j)
             \<and> flipped (overlaps st' ! j) = flipped (overlaps st ! j)))
   \<and> (processRead dec enc agg iidMin iter iid st = Inr st'' \<longrightarrow>
        (\<forall>j. discarded (overlaps st'' ! j) \<noteq> discarded (overlaps st ! j) \<longrightarrow>
             j \<in> set (slice st iid)
             \<and> discarded (overlaps st'' ! j) = 1
             \<and> ucast (a_iid (overlaps st ! j)) = of_nat iid + iidMin))"
proof (intro conjI impI)
  assume run: "recomputeErrorProfile dec enc agg iidMin numIIDs iter st = Inr st'"
  from recompute_overlaps [OF run] obtain st1 where
    e: "evolves dec iidMin iter st st1" and o: "overlaps st' = overlaps st1"
    and i: "overlapIndex st' = overlapIndex st" by blast
  show "overlapIndex st' = overlapIndex st" by (rule i)
  show "length (overlaps st') = length (overlaps st)" using e o by (simp add: evolves_def)
  show "\<forall>j. a_iid (overlaps st' ! j) = a_iid (overlaps st ! j)
             \<and> b_iid_hi (overlaps st' ! j) = b_iid_hi (overlaps st ! j)
             \<and> b_iid_lo (overlaps st' ! j) = b_iid_lo (overlaps st ! j)
             \<and> a_hang (overlaps st' ! j) = a_hang (overlaps st ! j)
             \<and> b_hang (overlaps st' ! j) = b_hang (overlaps st ! j)
             \<and> erate (overlaps st' ! j) = erate (overlaps st ! j)
             \<and> flipped (overlaps st' ! j) = flipped (overlaps st ! j)"
  proof
    fix j
    from e have "overlaps st1 ! j = (overlaps st ! j)\<lparr>discarded := discarded (overlaps st1 ! j)\<rparr>"
      by (simp add: evolves_def)
    from discarded_fields [OF this] show "a_iid (overlaps st' ! j) = a_iid (overlaps st ! j)
             \<and> b_iid_hi (overlaps st' ! j) = b_iid_hi (overlaps st ! j)
             \<and> b_iid_lo (overlaps st' ! j) = b_iid_lo (overlaps st ! j)
             \<and> a_hang (overlaps st' ! j) = a_hang (overlaps st ! j)
             \<and> b_hang (overlaps st' ! j) = b_hang (overlaps st ! j)
             \<and> erate (overlaps st' ! j) = erate (overlaps st ! j)
             \<and> flipped (overlaps st' ! j) = flipped (overlaps st ! j)"
      unfolding o .
  qed
next
  assume run: "processRead dec enc agg iidMin iter iid st = Inr st''"
  note P = processRead_Inr [OF run]
  show "\<forall>j. discarded (overlaps st'' ! j) \<noteq> discarded (overlaps st ! j) \<longrightarrow>
             j \<in> set (slice st iid)
             \<and> discarded (overlaps st'' ! j) = 1
             \<and> ucast (a_iid (overlaps st ! j)) = of_nat iid + iidMin"
  proof (intro allI impI)
    fix j assume ch: "discarded (overlaps st'' ! j) \<noteq> discarded (overlaps st ! j)"
    have act: "seqLen (readProfile st ! iid) \<noteq> 0" using P ch by auto
    have mem: "j \<in> set (slice st iid)" using P act ch by metis
    with P act have v: "visited dec iidMin iter (of_nat iid) (readProfile st)
                     (overlaps st ! j) (overlaps st'' ! j)" by blast
    have nd: "discarded (overlaps st ! j) \<noteq> 1"
      using v ch unfolding visited_def by metis
    have d1: "discarded (overlaps st'' ! j) = 1"
      using bit1_cases [of "discarded (overlaps st'' ! j)"]
        bit1_cases [of "discarded (overlaps st ! j)"] ch nd by metis
    have "span_a_iid (spanIn (readProfile st) iidMin (overlaps st ! j)) = of_nat iid + iidMin"
      using v nd unfolding visited_def by blast
    then have "ucast (a_iid (overlaps st ! j)) = of_nat iid + iidMin"
      by (simp add: spanIn_def spanOf_def)
    with mem d1 show "j \<in> set (slice st iid)
             \<and> discarded (overlaps st'' ! j) = 1
             \<and> ucast (a_iid (overlaps st ! j)) = of_nat iid + iidMin" by blast
  qed
qed

theorem iteration_frame_witness:
  "recomputeErrorProfile decodeEvalue encodeEvalue intervalDepth 1 2 1 run1 = Inr run2
   \<and> processRead decodeEvalue encodeEvalue intervalDepth 1 1 0 run1 = Inr run1a
   \<and> discarded (overlaps run1a ! 1) \<noteq> discarded (overlaps run1 ! 1)
   \<and> overlapIndex run2 = overlapIndex run1
   \<and> erate (overlaps run2 ! 1) = erate (overlaps run1 ! 1)
   \<and> 1 \<in> set (slice run1 0)
   \<and> discarded (overlaps run1a ! 1) = 1
   \<and> ucast (a_iid (overlaps run1 ! 1)) = of_nat 0 + (1 :: 32 word)"
proof -
  have ch: "discarded (overlaps run1a ! 1) \<noteq> discarded (overlaps run1 ! 1)"
    by (simp add: run1_defs)
  from iteration_frame [of decodeEvalue encodeEvalue intervalDepth 1 2 1 run1 run2 0 run1a]
    it1 p10 ch
  show ?thesis by blast
qed

subsection \<open>Discards are permanent\<close>

lemma recompute_monotone:
  assumes "recomputeErrorProfile dec enc agg iidMin numIIDs iter st = Inr st'"
  shows "\<forall>j. discarded (overlaps st ! j) = 1 \<longrightarrow> discarded (overlaps st' ! j) = 1"
proof -
  from recompute_overlaps [OF assms] obtain st1 where
    e: "evolves dec iidMin iter st st1" and o: "overlaps st' = overlaps st1" by blast
  show ?thesis using e unfolding o evolves_def by blast
qed

lemma runIterations_monotone:
  assumes "runIterations dec enc agg iidMin numIIDs st = Inr st'"
  shows "\<forall>j. discarded (overlaps st ! j) = 1 \<longrightarrow> discarded (overlaps st' ! j) = 1"
  by (rule forEach_rel [where
        f = "\<lambda>ii. recomputeErrorProfile dec enc agg iidMin numIIDs (of_nat ii)"
        and R = "\<lambda>s t. \<forall>j. discarded (overlaps s ! j) = 1 \<longrightarrow> discarded (overlaps t ! j) = 1",
        OF _ _ _ assms [unfolded runIterations_def]])
    (auto dest: recompute_monotone)

text \<open>
  Claim C4. A \<open>discarded\<close> bit that is set stays set: through one call of
  \<^verbatim>\<open>recomputeErrorProfile\<close>, and through the whole run of the four iterations followed
  by the output pass.
\<close>

theorem discard_monotone:
  "(recomputeErrorProfile dec enc agg iidMin numIIDs iter st = Inr st' \<longrightarrow>
      (\<forall>j. discarded (overlaps st ! j) = 1 \<longrightarrow> discarded (overlaps st' ! j) = 1))
   \<and> (engineRun dec enc agg iidMin numIIDs numOvls blocks st = Inr (st'', out) \<longrightarrow>
        (\<forall>j. discarded (overlaps st ! j) = 1 \<longrightarrow> discarded (overlaps st'' ! j) = 1))"
proof (intro conjI impI)
  assume "recomputeErrorProfile dec enc agg iidMin numIIDs iter st = Inr st'"
  then show "\<forall>j. discarded (overlaps st ! j) = 1 \<longrightarrow> discarded (overlaps st' ! j) = 1"
    by (rule recompute_monotone)
next
  assume "engineRun dec enc agg iidMin numIIDs numOvls blocks st = Inr (st'', out)"
  then have "runIterations dec enc agg iidMin numIIDs st = Inr st''"
    by (auto simp: engineRun_def split: sum.splits)
  then show "\<forall>j. discarded (overlaps st ! j) = 1 \<longrightarrow> discarded (overlaps st'' ! j) = 1"
    by (rule runIterations_monotone)
qed

theorem discard_monotone_witness:
  "recomputeErrorProfile decodeEvalue encodeEvalue intervalDepth 1 2 2 run2 = Inr run2
   \<and> engineRun decodeEvalue encodeEvalue intervalDepth 1 2 3 store0 run2 = Inr (run2, [rec0, rec2])
   \<and> discarded (overlaps run2 ! 1) = 1"
proof -
  have d: "discarded (overlaps run2 ! 1) = 1" by (simp add: run1_defs)
  from discard_monotone [of decodeEvalue encodeEvalue intervalDepth 1 2 2 run2 run2 3 store0
      run2 "[rec0, rec2]"] it2 [of 2] engine2 d
  show ?thesis by blast
qed

subsection \<open>The discard rule\<close>

lemma recompute_zero:
  assumes "recomputeErrorProfile dec enc agg iidMin numIIDs 0 st = Inr st'"
  shows "overlaps st' = overlaps st"
proof -
  from recompute_overlaps [OF assms] obtain st1 where
    e: "evolves dec iidMin 0 st st1" and o: "overlaps st' = overlaps st1" by blast
  have "overlaps st1 = overlaps st"
  proof (rule nth_equalityI)
    show "length (overlaps st1) = length (overlaps st)" using e by (simp add: evolves_def)
  next
    fix j
    from e have u: "overlaps st1 ! j = (overlaps st ! j)\<lparr>discarded := discarded (overlaps st1 ! j)\<rparr>"
      and m: "discarded (overlaps st ! j) = 1 \<longrightarrow> discarded (overlaps st1 ! j) = 1"
      and n: "discarded (overlaps st1 ! j) = 1 \<longrightarrow> discarded (overlaps st ! j) = 1"
      by (simp_all add: evolves_def)
    have "discarded (overlaps st1 ! j) = discarded (overlaps st ! j)"
      using bit1_cases [of "discarded (overlaps st1 ! j)"]
        bit1_cases [of "discarded (overlaps st ! j)"] m n by metis
    with u show "overlaps st1 ! j = overlaps st ! j" by simp
  qed
  with o show ?thesis by simp
qed

lemma gather_monotone:
  assumes "gatherOverlaps dec iidMin iter iid st = Inr (st1, el)"
  shows "\<forall>j. discarded (overlaps st ! j) = 1 \<longrightarrow> discarded (overlaps st1 ! j) = 1"
proof (intro allI impI)
  fix j assume d: "discarded (overlaps st ! j) = 1"
  note G = gatherOverlaps_Inr [OF assms]
  show "discarded (overlaps st1 ! j) = 1"
  proof (cases "j \<in> set (slice st iid)")
    case True
    with G have "visited dec iidMin iter (of_nat iid) (readProfile st)
                (overlaps st ! j) (overlaps st1 ! j)" by blast
    then show ?thesis using d by (simp add: visited_def)
  next
    case False
    with G have "overlaps st1 ! j = overlaps st ! j" by blast
    then show ?thesis using d by simp
  qed
qed

lemma computeEstimatedErate_value:
  assumes "computeEstimatedErate dec iidMin sp prof = Inr est"
  shows "est = dec (unat (sumOverSpan prof (span_a_iid sp - iidMin) (a_beg sp) (a_end sp)) div 2
                  + unat (sumOverSpan prof (span_b_iid sp - iidMin) (b_beg sp) (b_end sp)) div 2)"
  using assms
  by (auto simp: computeEstimatedErate_def errorMeanS_at_def Let_def unat_estErrorSum
      sumOverSpan_def split: if_splits sum.splits)

lemma pass_estimate:
  assumes pass: "forEach (processRead dec enc agg iidMin iter) [0 ..< n] st = Inr st1"
    and iid: "iid < n"
    and act: "seqLen (readProfile st ! iid) \<noteq> 0"
    and j: "j \<in> set (slice st iid)"
    and nd: "discarded (overlaps st ! j) \<noteq> 1"
    and it: "0 < iter"
  shows "\<exists>est. ESToverlapSpan (overlaps st ! j) (readProfile st) iidMin
                 = Inr (spanIn (readProfile st) iidMin (overlaps st ! j))
          \<and> computeEstimatedErate dec iidMin
               (spanIn (readProfile st) iidMin (overlaps st ! j)) (readProfile st) = Inr est"
proof -
  let ?sp = "spanIn (readProfile st) iidMin (overlaps st ! j)"
  from workItem_in_pass [OF pass iid act j] obtain sa :: engine and sb :: engine where
    a: "evolves dec iidMin iter st sa"
    and v: "visited dec iidMin iter (of_nat iid) (readProfile sa) (overlaps sa ! j) (overlaps sb ! j)"
    by blast
  note sp = evolves_span [OF a, of j]
  from a have s: "sameS (readProfile st) (readProfile sa)" by (simp add: evolves_def)
  show ?thesis
  proof (cases "discarded (overlaps sa ! j) = 1")
    case True
    with a nd have "discardTest dec iidMin (readProfile st) (overlaps st ! j)"
      by (auto simp: evolves_def)
    then show ?thesis unfolding discardTest_iff by blast
  next
    case False
    with v it have 1: "ESToverlapSpan (overlaps sa ! j) (readProfile sa) iidMin
           = Inr (spanIn (readProfile sa) iidMin (overlaps sa ! j))"
      and 2: "\<exists>est. computeEstimatedErate dec iidMin
                 (spanIn (readProfile sa) iidMin (overlaps sa ! j)) (readProfile sa) = Inr est"
      unfolding visited_def by blast+
    from 1 sp have 3: "ESToverlapSpan (overlaps st ! j) (readProfile st) iidMin = Inr ?sp"
      by simp
    from 2 sp have "\<exists>est. computeEstimatedErate dec iidMin ?sp (readProfile sa) = Inr est"
      by simp
    then have "\<exists>est. computeEstimatedErate dec iidMin ?sp (readProfile st) = Inr est"
      unfolding computeEstimatedErate_cong [OF s] .
    with 3 show ?thesis by blast
  qed
qed

lemma erate_span: "unat (span_erate (spanIn prof iidMin ovl)) = unat (erate ovl)"
  by (simp add: spanIn_def spanOf_def unsigned_ucast_eq take_bit_nat_eq_self
      order_less_trans [OF unsigned_less])

text \<open>
  Claim C3, as amended. In a call of \<^verbatim>\<open>recomputeErrorProfile\<close> with iteration index
  \<open>iter\<close> that completes, an overlap of the slice of a read with \<open>seqLen > 0\<close> is newly
  marked discarded if and only if \<open>iter > 0\<close>, it was not discarded before, and
  \<open>estimate + 0.03 < decoded erate\<close>, where the estimate is the decoding of
  \<open>A div 2 + B div 2\<close> for the two range sums \<open>A\<close> and \<open>B\<close> of the span (each halved before
  the addition), the sum with the tolerance is the sum of two \<^verbatim>\<open>double\<close>s, rounded to
  the nearest \<^verbatim>\<open>double\<close>, and 0.03 is the \<^verbatim>\<open>double\<close> nearest to \<open>3 / 100\<close>. A call with
  \<open>iter = 0\<close> leaves all overlaps as they were. The entries handed to a read's interval
  list are exactly those of the overlaps of its slice that are not discarded after the
  loop, and an overlap that was discarded before the loop is still discarded after it: a
  discarded overlap contributes to no interval list, in this iteration or a later one.
\<close>

theorem discard_rule:
  "(recomputeErrorProfile dec enc agg iidMin numIIDs iter st = Inr st'
      \<and> iid < unat numIIDs \<and> seqLen (readProfile st ! iid) \<noteq> 0 \<and> j \<in> set (slice st iid)
    \<longrightarrow> ((discarded (overlaps st' ! j) = 1 \<and> discarded (overlaps st ! j) \<noteq> 1)
          = (0 < iter \<and> discarded (overlaps st ! j) \<noteq> 1
             \<and> dadd (dec (unat (sumOverSpan (readProfile st)
                                  (span_a_iid (spanIn (readProfile st) iidMin (overlaps st ! j)) - iidMin)
                                  (a_beg (spanIn (readProfile st) iidMin (overlaps st ! j)))
                                  (a_end (spanIn (readProfile st) iidMin (overlaps st ! j)))) div 2
                         + unat (sumOverSpan (readProfile st)
                                  (span_b_iid (spanIn (readProfile st) iidMin (overlaps st ! j)) - iidMin)
                                  (b_beg (spanIn (readProfile st) iidMin (overlaps st ! j)))
                                  (b_end (spanIn (readProfile st) iidMin (overlaps st ! j)))) div 2))
                    (roundDouble (3 / 100))
                 < dec (unat (erate (overlaps st ! j))))))
   \<and> (recomputeErrorProfile dec enc agg iidMin numIIDs 0 s = Inr s' \<longrightarrow> overlaps s' = overlaps s)
   \<and> (gatherOverlaps dec iidMin iter iid t = Inr (t', el)
       \<longrightarrow> el = eRateListOf dec iidMin t' iid
           \<and> (\<forall>k. discarded (overlaps t ! k) = 1 \<longrightarrow> discarded (overlaps t' ! k) = 1))"
proof (intro conjI impI)
  let ?sp = "spanIn (readProfile st) iidMin (overlaps st ! j)"
  let ?arg = "unat (sumOverSpan (readProfile st) (span_a_iid ?sp - iidMin) (a_beg ?sp) (a_end ?sp)) div 2
            + unat (sumOverSpan (readProfile st) (span_b_iid ?sp - iidMin) (b_beg ?sp) (b_end ?sp)) div 2"
  assume h: "recomputeErrorProfile dec enc agg iidMin numIIDs iter st = Inr st'
      \<and> iid < unat numIIDs \<and> seqLen (readProfile st ! iid) \<noteq> 0 \<and> j \<in> set (slice st iid)"
  from h recompute_overlaps obtain st1 where
    pass: "forEach (processRead dec enc agg iidMin iter) [0 ..< unat numIIDs] st = Inr st1"
    and o: "overlaps st' = overlaps st1" by blast
  from h have iid: "iid < unat numIIDs" and act: "seqLen (readProfile st ! iid) \<noteq> 0"
    and j: "j \<in> set (slice st iid)" by simp_all
  note p = pass_discard_iff [OF pass iid act j]
  have t: "discardTest dec iidMin (readProfile st) (overlaps st ! j)
         = (dadd (dec ?arg) ERATE_TOLERANCE < dec (unat (erate (overlaps st ! j))))"
    if nd: "discarded (overlaps st ! j) \<noteq> 1" and it: "0 < iter"
  proof -
    from pass_estimate [OF pass iid act j nd it] obtain est where
      1: "ESToverlapSpan (overlaps st ! j) (readProfile st) iidMin = Inr ?sp"
      and 2: "computeEstimatedErate dec iidMin ?sp (readProfile st) = Inr est" by blast
    from computeEstimatedErate_value [OF 2] have 3: "est = dec ?arg" .
    from 2 3 have 4: "computeEstimatedErate dec iidMin ?sp (readProfile st) = Inr (dec ?arg)"
      by simp
    show ?thesis by (simp add: discardTest_def 1 4 erate_span)
  qed
  show "(discarded (overlaps st' ! j) = 1 \<and> discarded (overlaps st ! j) \<noteq> 1)
          = (0 < iter \<and> discarded (overlaps st ! j) \<noteq> 1
             \<and> dadd (dec ?arg) (roundDouble (3 / 100)) < dec (unat (erate (overlaps st ! j))))"
    unfolding o ERATE_TOLERANCE_def [symmetric] using p t by blast
next
  assume "recomputeErrorProfile dec enc agg iidMin numIIDs 0 s = Inr s'"
  then show "overlaps s' = overlaps s" by (rule recompute_zero)
next
  assume g: "gatherOverlaps dec iidMin iter iid t = Inr (t', el)"
  show "el = eRateListOf dec iidMin t' iid" using gatherOverlaps_Inr [OF g] by blast
  show "\<forall>k. discarded (overlaps t ! k) = 1 \<longrightarrow> discarded (overlaps t' ! k) = 1"
    using g by (rule gather_monotone)
qed

text \<open>Iteration 1 of the run on the reads 1 and 2 of length 4: the second overlap of read 1
  has the range sums 3150 and 300, its estimate is the decoding of 1725, and it is
  discarded.\<close>

lemma run1Span:
  "spanIn (readProfile run1) 1 (overlaps run1 ! 1)
     = \<lparr>span_a_iid = 1, span_b_iid = 2, a_beg = 1, a_end = 4, b_beg = 0, b_end = 4,
        fwd = 1, span_erate = 4000\<rparr>"
  by (simp add: spanIn_def spanOf_def b_iid_of_def run1_defs)

lemma run1Sums:
  "sumOverSpan (readProfile run1) 0 1 4 = 3150 \<and> sumOverSpan (readProfile run1) 1 0 4 = 300"
  by (simp add: sumOverSpan_def run1_defs)

theorem discard_rule_witness:
  "recomputeErrorProfile decodeEvalue encodeEvalue intervalDepth 1 2 1 run1 = Inr run2
   \<and> 0 < unat (2 :: 32 word) \<and> seqLen (readProfile run1 ! 0) \<noteq> 0 \<and> 1 \<in> set (slice run1 0)
   \<and> discarded (overlaps run2 ! 1) = 1 \<and> discarded (overlaps run1 ! 1) \<noteq> 1
   \<and> sumOverSpan (readProfile run1) 0 1 4 = 3150
   \<and> sumOverSpan (readProfile run1) 1 0 4 = 300
   \<and> dadd (decodeEvalue 1725) (roundDouble (3 / 100)) < decodeEvalue 4000
   \<and> recomputeErrorProfile decodeEvalue encodeEvalue intervalDepth 1 2 0 run0 = Inr run1
   \<and> overlaps run1 = overlaps run0
   \<and> gatherOverlaps decodeEvalue 1 1 0 run1
       = Inr (run1a\<lparr>readProfile := readProfile run1\<rparr>, [(0, 4, w200)])
   \<and> eRateListOf decodeEvalue 1 (run1a\<lparr>readProfile := readProfile run1\<rparr>) 0 = [(0, 4, w200)]"
proof -
  have h: "0 < unat (2 :: 32 word)" "seqLen (readProfile run1 ! 0) \<noteq> 0"
    "1 \<in> set (slice run1 0)"
    by (simp_all add: run1_defs slice_def)
  have d: "discarded (overlaps run2 ! 1) = 1" "discarded (overlaps run1 ! 1) \<noteq> 1"
    by (simp_all add: run1_defs)
  have e: "unat (erate (overlaps run1 ! 1)) = 4000" by (simp add: run1_defs)
  note r = discard_rule [of decodeEvalue encodeEvalue intervalDepth 1 2 1 run1 run2 0 1
      run0 run1 run1 "run1a\<lparr>readProfile := readProfile run1\<rparr>" "[(0, 4, w200)]"]
  from r it1 h d have "dadd (decodeEvalue (unat (sumOverSpan (readProfile run1)
        (span_a_iid (spanIn (readProfile run1) 1 (overlaps run1 ! 1)) - 1)
        (a_beg (spanIn (readProfile run1) 1 (overlaps run1 ! 1)))
        (a_end (spanIn (readProfile run1) 1 (overlaps run1 ! 1)))) div 2
      + unat (sumOverSpan (readProfile run1)
        (span_b_iid (spanIn (readProfile run1) 1 (overlaps run1 ! 1)) - 1)
        (b_beg (spanIn (readProfile run1) 1 (overlaps run1 ! 1)))
        (b_end (spanIn (readProfile run1) 1 (overlaps run1 ! 1)))) div 2))
      (roundDouble (3 / 100)) < decodeEvalue (unat (erate (overlaps run1 ! 1)))"
    by blast
  then have 1: "dadd (decodeEvalue 1725) (roundDouble (3 / 100)) < decodeEvalue 4000"
    unfolding run1Span e by (simp add: run1Sums)
  from r it0 have 2: "overlaps run1 = overlaps run0" by blast
  from r g10 have 3: "[(0, 4, w200)]
      = eRateListOf decodeEvalue 1 (run1a\<lparr>readProfile := readProfile run1\<rparr>) 0"
    by blast
  from it1 it0 g10 h d 1 2 3 [symmetric] run1Sums show ?thesis by blast
qed

text \<open>With the estimate of the spec, the decoding of \<open>(A + B) div 2\<close>, the claim fails on
  the run on two reads of length 1: in iteration 1 both range sums of the overlap are 1,
  the spec's estimate is the decoding of 1, and \<open>estimate + 0.03 < decoded erate\<close> does
  not hold for the encoded error rate 301, with the sum rounded or exact; the overlap is
  discarded all the same.\<close>

theorem discard_rule_counterexample:
  "recomputeErrorProfile decodeEvalue encodeEvalue intervalDepth 1 2 0 odd0 = Inr odd1
   \<and> recomputeErrorProfile decodeEvalue encodeEvalue intervalDepth 1 2 1 odd1 = Inr odd2
   \<and> 0 \<in> set (slice odd1 0) \<and> seqLen (readProfile odd1 ! 0) = 1
   \<and> discarded (overlaps odd1 ! 0) = 0 \<and> discarded (overlaps odd2 ! 0) = 1
   \<and> sumOverSpan (readProfile odd1) 0 0 1 = 1
   \<and> sumOverSpan (readProfile odd1) 1 0 1 = 1
   \<and> specEstimate decodeEvalue 1 (spanIn (readProfile odd1) 1 (overlaps odd1 ! 0))
        (readProfile odd1) = decodeEvalue 1
   \<and> unat (erate (overlaps odd1 ! 0)) = 301
   \<and> \<not> dadd (decodeEvalue 1) ERATE_TOLERANCE < decodeEvalue 301
   \<and> \<not> decodeEvalue 1 + 3 / 100 < decodeEvalue 301"
proof -
  have 1: "0 \<in> set (slice odd1 0)" "seqLen (readProfile odd1 ! 0) = 1"
    "discarded (overlaps odd1 ! 0) = 0" "discarded (overlaps odd2 ! 0) = 1"
    "unat (erate (overlaps odd1 ! 0)) = 301"
    by (simp_all add: odd_defs slice_def)
  have 2: "sumOverSpan (readProfile odd1) 0 0 1 = 1" "sumOverSpan (readProfile odd1) 1 0 1 = 1"
    by (simp_all add: sumOverSpan_def odd_defs)
  have 3: "specEstimate decodeEvalue 1 (spanIn (readProfile odd1) 1 (overlaps odd1 ! 0))
        (readProfile odd1) = decodeEvalue 1"
    unfolding oddSpanIn by (simp add: specEstimate_def 2)
  from ito0 ito1 1 2 3 spec_301 show ?thesis by blast
qed

subsection \<open>The scratch array\<close>




lemma survivor_entry:
  assumes run: "processRead dec enc agg iidMin iter iid st = Inr st'"
    and act: "seqLen (readProfile st ! iid) \<noteq> 0"
    and j: "j \<in> set (survivors st' iid)"
  shows "a_beg (spanIn (readProfile st') iidMin (overlaps st' ! j))
       \<le> a_end (spanIn (readProfile st') iidMin (overlaps st' ! j))"
proof -
  note P = processRead_Inr [OF run]
  note e = processRead_evolves [OF run]
  from P have "slice st' iid = slice st iid" by (simp add: slice_def)
  with j have js: "j \<in> set (slice st iid)" and nd': "discarded (overlaps st' ! j) \<noteq> 1"
    by (simp_all add: survivors_def)
  from P act js have v: "visited dec iidMin iter (of_nat iid) (readProfile st)
                     (overlaps st ! j) (overlaps st' ! j)" by blast
  from v nd' have nd: "discarded (overlaps st ! j) \<noteq> 1" by (auto simp: visited_def)
  from v nd have "a_beg (spanIn (readProfile st) iidMin (overlaps st ! j))
       \<le> a_end (spanIn (readProfile st) iidMin (overlaps st ! j))"
    by (simp add: visited_def)
  then show ?thesis using evolves_span [OF e, of j] by simp
qed



subsection \<open>The assertions on a span\<close>

text \<open>The aggregator modelled from the spec covers its input ranges.\<close>

lemma adjacent_pred:
  assumes "sorted zs" and "distinct zs" and "h \<in> set zs" and "x \<in> set zs" and "x < h"
  shows "\<exists>p. (p, h) \<in> set (adjacent zs) \<and> x \<le> p"
  using assms
proof (induction zs arbitrary: x rule: adjacent.induct)
  case (1 a y zs)
  from "1.prems"(1) have ay: "a \<le> y" and s: "sorted (y # zs)"
    and amin: "\<forall>z\<in>set (y # zs). a \<le> z" by auto
  from "1.prems"(2) have d: "distinct (y # zs)" and an: "a \<notin> set (y # zs)" by auto
  from s have ymin: "\<forall>z\<in>set zs. y \<le> z" by auto
  show ?case
  proof (cases "h = y")
    case True
    have "x = a"
    proof (rule ccontr)
      assume "x \<noteq> a"
      with "1.prems"(4) have "x \<in> set (y # zs)" by simp
      with ymin have "y \<le> x" by auto
      with "1.prems"(5) True show False by simp
    qed
    then show ?thesis using True by auto
  next
    case False
    have hn: "h \<noteq> a"
    proof
      assume "h = a"
      with amin "1.prems"(4) have "h \<le> x" by auto
      with "1.prems"(5) show False by simp
    qed
    with False "1.prems"(3) have hz: "h \<in> set (y # zs)" by simp
    show ?thesis
    proof (cases "x = a")
      case True
      from hz False ymin have "y \<le> h" by auto
      with False have yh: "y < h" by simp
      have "y \<in> set (y # zs)" by simp
      from "1.IH" [OF s d hz this yh] obtain p where
        p: "(p, h) \<in> set (adjacent (y # zs))" and yp: "y \<le> p" by auto
      from ay yp True have "x \<le> p" by simp
      with p show ?thesis by auto
    next
      case xa: False
      with "1.prems"(4) have "x \<in> set (y # zs)" by simp
      from "1.IH" [OF s d hz this "1.prems"(5)] show ?thesis by auto
    qed
  qed
qed simp_all

lemma intervalDepth_covers: "aggCovers intervalDepth"
  unfolding aggCovers_def
proof (intro allI impI)
  fix el :: "entry list" and b l :: "32 word" and v :: real
  assume m: "(b, l, v) \<in> set el" and l: "0 < l" and w: "b \<le> b + l"
  have bl: "b < b + l" using w l by (simp add: less_le)
  have e1: "b \<in> set (endpoints el)" and e2: "b + l \<in> set (endpoints el)"
    using m by (auto simp: endpoints_def)
  have s: "sorted (endpoints el)" and d: "distinct (endpoints el)"
    by (simp_all add: endpoints_def)
  from adjacent_pred [OF s d e2 e1 bl] obtain p where
    p: "(p, b + l) \<in> set (adjacent (endpoints el))" and bp: "b \<le> p" by blast
  have c: "(b, l, v) \<in> set (covering el p (b + l))"
    using m bp w by (simp add: covering_def)
  then have ne: "covering el p (b + l) \<noteq> []" by auto
  let ?iv = "\<lparr> iv_lo = p, iv_hi = b + l,
               iv_value = foldl dadd 0 (map (\<lambda>(b, l, v). v) (covering el p (b + l))),
               iv_depth = of_nat (length (covering el p (b + l))) \<rparr>"
  have "?iv \<in> set (intervalDepth el)"
    unfolding intervalDepth_def using p ne by (force simp: image_iff)
  then show "\<exists>iv\<in>set (intervalDepth el). b + l \<le> iv_hi iv" by force
qed

text \<open>A span that is empty on the a read ends inside the read; a span that is not empty
  hands its range to the interval list, and the assertion on the intervals bounds its
  end.\<close>

lemma spanOf_empty_a:
  assumes "a_beg (spanOf ovl lenA lenB) = a_end (spanOf ovl lenA lenB)"
  shows "a_end (spanOf ovl lenA lenB) \<le> lenA"
proof (cases "sint (b_hang ovl) < 0")
  case False
  then show ?thesis by (simp add: spanOf_def)
next
  case True
  have a: "- (2 ^ 16) \<le> sint (a_hang ovl)" "sint (a_hang ovl) < 2 ^ 16"
    using sint_hang_bounds [of "a_hang ovl"] by simp_all
  have b: "- 65536 \<le> sint (b_hang ovl)"
    using sint_hang_bounds [of "b_hang ovl"] by simp
  have la: "0 \<le> uint lenA" "uint lenA < 2 ^ 32"
    using uint_lt2p [of lenA] by simp_all
  have pos: "0 \<le> sint (a_hang ovl) \<Longrightarrow> sint (a_hang ovl) mod 2 ^ 32 = sint (a_hang ovl)"
    using a by simp
  have 1: "uint (a_beg (spanOf ovl lenA lenB))
     = (if sint (a_hang ovl) < 0 then 0 else sint (a_hang ovl))"
    unfolding spanOf_def using pos by (simp add: uint_scast_hang)
  have 2: "uint (a_end (spanOf ovl lenA lenB)) = (uint lenA + sint (b_hang ovl)) mod 2 ^ 32"
    unfolding spanOf_def using True by (simp add: uint_plus_scast)
  from 1 a have small: "uint (a_beg (spanOf ovl lenA lenB)) < 2 ^ 16" by (simp split: if_splits)
  have nn: "0 \<le> uint lenA + sint (b_hang ovl)"
  proof (rule ccontr)
    assume "\<not> 0 \<le> uint lenA + sint (b_hang ovl)"
    then have neg: "uint lenA + sint (b_hang ovl) < 0" by simp
    define x where "x = uint lenA + sint (b_hang ovl)"
    have x0: "0 \<le> x + 4294967296" using la(1) b unfolding x_def by linarith
    have x1: "x + 4294967296 < 4294967296" using neg unfolding x_def by linarith
    have "(x + 4294967296) mod 4294967296 = x + 4294967296"
      using x0 x1 by (rule mod_pos_pos_trivial)
    moreover have "(x + 4294967296) mod 4294967296 = x mod 4294967296"
      by (rule mod_add_self2)
    ultimately have "x mod 4294967296 = x + 4294967296" by simp
    then have "(uint lenA + sint (b_hang ovl)) mod 2 ^ 32 = uint lenA + sint (b_hang ovl) + 2 ^ 32"
      unfolding x_def by simp
    with 2 have "uint (a_end (spanOf ovl lenA lenB)) = uint lenA + sint (b_hang ovl) + 2 ^ 32"
      by simp
    then have "uint (a_end (spanOf ovl lenA lenB)) = uint lenA + sint (b_hang ovl) + 4294967296"
      by simp
    with la(1) b have "4294901760 \<le> uint (a_end (spanOf ovl lenA lenB))" by linarith
    with small assms show False by simp
  qed
  then have "(uint lenA + sint (b_hang ovl)) mod 2 ^ 32 = uint lenA + sint (b_hang ovl)"
    using la True by simp
  with 2 True have "uint (a_end (spanOf ovl lenA lenB)) \<le> uint lenA" by simp
  then show ?thesis by (simp add: word_le_def)
qed

lemma workItem_a_end:
  assumes run: "processRead dec enc agg iidMin iter iid st = Inr st'"
    and act: "seqLen (readProfile st ! iid) \<noteq> 0"
    and j: "j \<in> set (survivors st' iid)"
    and cov: "aggCovers agg"
    and lt: "a_beg (spanIn (readProfile st') iidMin (overlaps st' ! j))
           < a_end (spanIn (readProfile st') iidMin (overlaps st' ! j))"
  shows "a_end (spanIn (readProfile st') iidMin (overlaps st' ! j)) \<le> seqLen (readProfile st ! iid)"
proof -
  let ?sp = "spanIn (readProfile st') iidMin (overlaps st' ! j)"
  from processRead_Inr [OF run] act obtain U0 where
    u: "forEach (unpackBody enc (seqLen (readProfile st ! iid)))
          (agg (eRateListOf dec iidMin st' iid)) U0 = Inr (errorMeanU (readProfile st' ! iid))"
    by blast
  from unpack_loop [OF u] have hi: "\<forall>iv\<in>set (agg (eRateListOf dec iidMin st' iid)).
      iv_hi iv \<le> seqLen (readProfile st ! iid)" by blast
  have m: "(a_beg ?sp, a_end ?sp - a_beg ?sp, ddiv (dec (unat (span_erate ?sp))) 2)
      \<in> set (eRateListOf dec iidMin st' iid)"
    using j by (auto simp: eRateListOf_def entryOf_def)
  have l: "0 < a_end ?sp - a_beg ?sp" using lt by (simp add: word_gt_0)
  have e: "a_beg ?sp + (a_end ?sp - a_beg ?sp) = a_end ?sp" by simp
  have w: "a_beg ?sp \<le> a_beg ?sp + (a_end ?sp - a_beg ?sp)"
    unfolding e using lt by (rule less_imp_le)
  from cov [unfolded aggCovers_def] m l w obtain iv where
    iv: "iv \<in> set (agg (eRateListOf dec iidMin st' iid))"
    and le: "a_beg ?sp + (a_end ?sp - a_beg ?sp) \<le> iv_hi iv" by blast
  from le have "a_end ?sp \<le> iv_hi iv" unfolding e .
  with hi iv show ?thesis by (meson order_trans)
qed

lemma pass_a_end:
  assumes pass: "forEach (processRead dec enc agg iidMin iter) [0 ..< n] st = Inr st1"
    and iid: "iid < n" and n: "n < 2 ^ 32"
    and act: "seqLen (readProfile st ! iid) \<noteq> 0"
    and j: "j \<in> set (slice st iid)"
    and nd: "discarded (overlaps st1 ! j) \<noteq> 1"
    and cov: "aggCovers agg"
  shows "a_end (spanIn (readProfile st) iidMin (overlaps st ! j)) \<le> seqLen (readProfile st ! iid)"
proof -
  let ?sp = "spanIn (readProfile st) iidMin (overlaps st ! j)"
  have mem: "iid \<in> set [0 ..< n]" using iid by simp
  from firstPass_mem [OF pass mem] obtain sa sb where
    a: "evolves dec iidMin iter st sa"
    and p: "processRead dec enc agg iidMin iter iid sa = Inr sb"
    and b: "evolves dec iidMin iter sb st1" by blast
  note ab = evolves_trans [OF a processRead_evolves [OF p]]
  from a have sl: "slice sa iid = slice st iid" by (simp add: evolves_def slice_def)
  from a have sq: "seqLen (readProfile sa ! iid) = seqLen (readProfile st ! iid)"
    by (simp add: evolves_def sameS_def)
  with act have act': "seqLen (readProfile sa ! iid) \<noteq> 0" by simp
  note P = processRead_Inr [OF p]
  from P have slb: "slice sb iid = slice sa iid" by (simp add: slice_def)
  from b nd have ndb: "discarded (overlaps sb ! j) \<noteq> 1" by (auto simp: evolves_def)
  from j sl slb ndb have js: "j \<in> set (survivors sb iid)" by (simp add: survivors_def)
  have spb: "spanIn (readProfile sb) iidMin (overlaps sb ! j) = ?sp"
    using evolves_span [OF ab, of j] by simp
  have spa: "spanIn (readProfile sa) iidMin (overlaps sa ! j) = ?sp"
    using evolves_span [OF a, of j] by simp
  from survivor_entry [OF p act' js] have le: "a_beg ?sp \<le> a_end ?sp" unfolding spb .
  show ?thesis
  proof (cases "a_beg ?sp = a_end ?sp")
    case False
    with le have "a_beg ?sp < a_end ?sp" by simp
    from workItem_a_end [OF p act' js cov, unfolded spb, OF this] show ?thesis
      unfolding sq .
  next
    case True
    from P act' j sl have v: "visited dec iidMin iter (of_nat iid) (readProfile sa)
        (overlaps sa ! j) (overlaps sb ! j)" by simp
    from v ndb have nda: "discarded (overlaps sa ! j) \<noteq> 1" by (auto simp: visited_def)
    from v nda have "span_a_iid (spanIn (readProfile sa) iidMin (overlaps sa ! j))
        = of_nat iid + iidMin" by (simp add: visited_def)
    then have id: "span_a_iid ?sp = of_nat iid + iidMin" unfolding spa .
    have "ucast (a_iid (overlaps st ! j)) - iidMin = (of_nat iid :: 32 word)"
      using id by (simp add: spanIn_def spanOf_def)
    moreover have "unat (of_nat iid :: 32 word) = iid"
      using iid n by (simp add: unat_of_nat)
    ultimately have ix: "unat (ucast (a_iid (overlaps st ! j)) - iidMin :: 32 word) = iid"
      by simp
    have eq: "?sp = spanOf (overlaps st ! j) (seqLen (readProfile st ! iid))
        (seqLen (readProfile st ! unat (b_iid_of (overlaps st ! j) - iidMin)))"
      by (simp add: spanIn_def ix)
    from True show ?thesis unfolding eq by (rule spanOf_empty_a)
  qed
qed

lemma overlapBody_abort:
  assumes oo: "oo < length (overlaps t)" and nd: "discarded (overlaps t ! oo) \<noteq> 1"
    and sq: "ESToverlapSpan (overlaps t ! oo) (readProfile t) iidMin = Inr sq"
    and id: "span_a_iid sq = i + iidMin"
    and bad: "\<not> a_beg sq \<le> a_end sq
           \<or> 0 < iter \<and> \<not> a_beg sq < a_end sq
           \<or> 0 < iter \<and> unat (span_a_iid sq - iidMin) < length (readProfile t)
               \<and> unat (a_end sq) < length (errorMeanS (readProfile t ! unat (span_a_iid sq - iidMin)))
               \<and> \<not> b_beg sq < b_end sq"
  shows "overlapBody dec iidMin iter i oo (t, el) = Inl AssertFailed"
proof (cases "a_beg sq \<le> a_end sq")
  case False
  then show ?thesis using oo nd sq id by (simp add: overlapBody_def)
next
  case le: True
  with bad have it: "0 < iter" by blast
  have c: "computeEstimatedErate dec iidMin sq (readProfile t) = Inl AssertFailed"
  proof (cases "a_beg sq < a_end sq")
    case False
    then show ?thesis by (simp add: computeEstimatedErate_def)
  next
    case True
    with bad le have r: "unat (span_a_iid sq - iidMin) < length (readProfile t)"
      and e: "unat (a_end sq) < length (errorMeanS (readProfile t ! unat (span_a_iid sq - iidMin)))"
      and b: "\<not> b_beg sq < b_end sq" by blast+
    from True e have e': "unat (a_beg sq) < length (errorMeanS (readProfile t ! unat (span_a_iid sq - iidMin)))"
      by (simp add: word_less_nat_alt)
    show ?thesis using True b
      by (simp add: computeEstimatedErate_def Let_def errorMeanS_at_Inr [OF r e]
          errorMeanS_at_Inr [OF r e'])
  qed
  show ?thesis using oo nd sq id le it c by (simp add: overlapBody_def)
qed

lemma unpackBody_abort:
  assumes "\<not> iv_hi iv \<le> len"
  shows "unpackBody enc len iv U = Inl AssertFailed"
  using assms by (simp add: unpackBody_def)

text \<open>
  Claim C5, as amended. Take an overlap of the slice of a read with \<open>seqLen > 0\<close> that was
  not discarded before a call of \<^verbatim>\<open>recomputeErrorProfile\<close>, and the span that the
  constructor builds for it, both profile lookups of the constructor being in range. If
  the call completes, the span has \<open>a_beg \<le> a_end\<close>; when the iteration index is above 0
  it also has \<open>a_beg < a_end\<close> and \<open>b_beg < b_end\<close>; and when the overlap is still not
  discarded after the call and the interval list covers its input ranges, the span has
  \<open>a_end \<le> seqLen\<close> of the read. A violation is an assertion failure, not a silent
  discard: the round of the loop over the overlaps ends in \<open>AssertFailed\<close> when
  \<open>a_beg \<le> a_end\<close> fails, or past iteration 0 when \<open>a_beg < a_end\<close> fails, or past
  iteration 0 when the two reads of the prefix array of the a read are in range and
  \<open>b_beg < b_end\<close> fails; and the round of the loop over the intervals ends in
  \<open>AssertFailed\<close> on an interval that ends beyond \<open>seqLen\<close>.
\<close>

theorem span_checks:
  "(recomputeErrorProfile dec enc agg iidMin numIIDs iter st = Inr st'
      \<and> iid < unat numIIDs \<and> seqLen (readProfile st ! iid) \<noteq> 0 \<and> j \<in> set (slice st iid)
      \<and> discarded (overlaps st ! j) \<noteq> 1
      \<and> ESToverlapSpan (overlaps st ! j) (readProfile st) iidMin = Inr sp
    \<longrightarrow> a_beg sp \<le> a_end sp
       \<and> (0 < iter \<longrightarrow> a_beg sp < a_end sp \<and> b_beg sp < b_end sp)
       \<and> (aggCovers agg \<and> discarded (overlaps st' ! j) \<noteq> 1
            \<longrightarrow> a_end sp \<le> seqLen (readProfile st ! iid)))
   \<and> (oo < length (overlaps t) \<and> discarded (overlaps t ! oo) \<noteq> 1
        \<and> ESToverlapSpan (overlaps t ! oo) (readProfile t) iidMin = Inr sq
        \<and> span_a_iid sq = i + iidMin
        \<and> (\<not> a_beg sq \<le> a_end sq
           \<or> 0 < iter \<and> \<not> a_beg sq < a_end sq
           \<or> 0 < iter \<and> unat (span_a_iid sq - iidMin) < length (readProfile t)
               \<and> unat (a_end sq)
                    < length (errorMeanS (readProfile t ! unat (span_a_iid sq - iidMin)))
               \<and> \<not> b_beg sq < b_end sq)
      \<longrightarrow> overlapBody dec iidMin iter i oo (t, el) = Inl AssertFailed)
   \<and> (\<not> iv_hi iv \<le> len \<longrightarrow> unpackBody enc len iv U = Inl AssertFailed)"
proof (intro conjI impI)
  assume h: "recomputeErrorProfile dec enc agg iidMin numIIDs iter st = Inr st'
      \<and> iid < unat numIIDs \<and> seqLen (readProfile st ! iid) \<noteq> 0 \<and> j \<in> set (slice st iid)
      \<and> discarded (overlaps st ! j) \<noteq> 1
      \<and> ESToverlapSpan (overlaps st ! j) (readProfile st) iidMin = Inr sp"
  then have run: "recomputeErrorProfile dec enc agg iidMin numIIDs iter st = Inr st'"
    and iid: "iid < unat numIIDs" and act: "seqLen (readProfile st ! iid) \<noteq> 0"
    and j: "j \<in> set (slice st iid)" and nd: "discarded (overlaps st ! j) \<noteq> 1"
    and c: "ESToverlapSpan (overlaps st ! j) (readProfile st) iidMin = Inr sp" by simp_all
  note eq = ESToverlapSpan_Inr [OF c]
  from recompute_overlaps [OF run] obtain st1 where
    pass: "forEach (processRead dec enc agg iidMin iter) [0 ..< unat numIIDs] st = Inr st1"
    and o: "overlaps st' = overlaps st1" by blast
  from workItem_in_pass [OF pass iid act j] obtain sa :: engine and sb :: engine where
    a: "evolves dec iidMin iter st sa"
    and v: "visited dec iidMin iter (of_nat iid) (readProfile sa) (overlaps sa ! j) (overlaps sb ! j)"
    by blast
  note s = evolves_span [OF a, of j]
  have chk: "a_beg sp \<le> a_end sp \<and> (0 < iter \<longrightarrow> a_beg sp < a_end sp \<and> b_beg sp < b_end sp)"
  proof (cases "discarded (overlaps sa ! j) = 1")
    case True
    with a nd have it: "0 < iter"
      and t: "discardTest dec iidMin (readProfile st) (overlaps st ! j)"
      by (auto simp: evolves_def)
    from t [unfolded discardTest_iff] obtain est where
      2: "computeEstimatedErate dec iidMin sp (readProfile st) = Inr est" unfolding eq by blast
    from computeEstimatedErate_Inr [OF 2] have 3: "a_beg sp < a_end sp \<and> b_beg sp < b_end sp" .
    then have "a_beg sp \<le> a_end sp" by (auto intro: less_imp_le)
    with 3 show ?thesis by blast
  next
    case False
    with v show ?thesis unfolding visited_def eq using s by metis
  qed
  from chk show "a_beg sp \<le> a_end sp" by blast
  { assume "0 < iter"
    with chk show "a_beg sp < a_end sp" and "b_beg sp < b_end sp" by blast+ }
  { assume k: "aggCovers agg \<and> discarded (overlaps st' ! j) \<noteq> 1"
    have n: "unat numIIDs < 2 ^ 32" using unsigned_less [of numIIDs, where ?'a = nat] by simp
    from k o have nd1: "discarded (overlaps st1 ! j) \<noteq> 1" by simp
    from k have cov: "aggCovers agg" by simp
    show "a_end sp \<le> seqLen (readProfile st ! iid)"
      unfolding eq by (rule pass_a_end [OF pass iid n act j nd1 cov]) }
next
  assume "oo < length (overlaps t) \<and> discarded (overlaps t ! oo) \<noteq> 1
        \<and> ESToverlapSpan (overlaps t ! oo) (readProfile t) iidMin = Inr sq
        \<and> span_a_iid sq = i + iidMin
        \<and> (\<not> a_beg sq \<le> a_end sq
           \<or> 0 < iter \<and> \<not> a_beg sq < a_end sq
           \<or> 0 < iter \<and> unat (span_a_iid sq - iidMin) < length (readProfile t)
               \<and> unat (a_end sq)
                    < length (errorMeanS (readProfile t ! unat (span_a_iid sq - iidMin)))
               \<and> \<not> b_beg sq < b_end sq)"
  then show "overlapBody dec iidMin iter i oo (t, el) = Inl AssertFailed"
    using overlapBody_abort by blast
next
  assume "\<not> iv_hi iv \<le> len"
  then show "unpackBody enc len iv U = Inl AssertFailed" by (rule unpackBody_abort)
qed

text \<open>Iteration 1 of the run on the reads 1 and 2 of length 4, for the first overlap of
  read 1; the overlap of the run with an ill-formed span, on which the round of iteration
  1 fails; and an interval that ends at 5 in a read of length 4.\<close>

lemma run1Span0:
  "ESToverlapSpan (overlaps run1 ! 0) (readProfile run1) 1
     = Inr \<lparr>span_a_iid = 1, span_b_iid = 2, a_beg = 0, a_end = 4, b_beg = 0, b_end = 4,
          fwd = 1, span_erate = 200\<rparr>"
  by (simp add: ESToverlapSpan_def spanOf_def b_iid_of_def run1_defs Let_def)

lemma bad1Span:
  "ESToverlapSpan (overlaps bad1 ! 0) (readProfile bad1) 1
     = Inr \<lparr>span_a_iid = 1, span_b_iid = 2, a_beg = 0, a_end = 3, b_beg = 3, b_end = 2,
          fwd = 1, span_erate = 200\<rparr>"
  by (simp add: ESToverlapSpan_def spanOf_def b_iid_of_def bad_defs Let_def)

theorem span_checks_witness:
  "recomputeErrorProfile decodeEvalue encodeEvalue intervalDepth 1 2 1 run1 = Inr run2
   \<and> 0 < unat (2 :: 32 word) \<and> seqLen (readProfile run1 ! 0) = 4 \<and> 0 \<in> set (slice run1 0)
   \<and> discarded (overlaps run1 ! 0) \<noteq> 1 \<and> discarded (overlaps run2 ! 0) \<noteq> 1
   \<and> aggCovers intervalDepth
   \<and> ESToverlapSpan (overlaps run1 ! 0) (readProfile run1) 1
       = Inr \<lparr>span_a_iid = 1, span_b_iid = 2, a_beg = 0, a_end = 4, b_beg = 0, b_end = 4,
            fwd = 1, span_erate = 200\<rparr>
   \<and> (0 :: 32 word) < 4 \<and> (4 :: 32 word) \<le> 4
   \<and> ESToverlapSpan (overlaps bad1 ! 0) (readProfile bad1) 1
       = Inr \<lparr>span_a_iid = 1, span_b_iid = 2, a_beg = 0, a_end = 3, b_beg = 3, b_end = 2,
            fwd = 1, span_erate = 200\<rparr>
   \<and> discarded (overlaps bad1 ! 0) \<noteq> 1
   \<and> \<not> (3 :: 32 word) < 2
   \<and> overlapBody decodeEvalue 1 1 0 0 (bad1, []) = Inl AssertFailed
   \<and> unpackBody encodeEvalue 4 \<lparr>iv_lo = 0, iv_hi = 5, iv_value = 0, iv_depth = 0\<rparr> []
       = Inl AssertFailed"
proof -
  let ?sp = "\<lparr>span_a_iid = 1, span_b_iid = 2, a_beg = 0, a_end = 4, b_beg = 0, b_end = 4,
            fwd = 1, span_erate = 200\<rparr> :: ESToverlapSpan"
  let ?sq = "\<lparr>span_a_iid = 1, span_b_iid = 2, a_beg = 0, a_end = 3, b_beg = 3, b_end = 2,
            fwd = 1, span_erate = 200\<rparr> :: ESToverlapSpan"
  let ?iv = "\<lparr>iv_lo = 0, iv_hi = 5, iv_value = 0, iv_depth = 0\<rparr> :: interval"
  have h: "0 < unat (2 :: 32 word)" "seqLen (readProfile run1 ! 0) = 4"
    "0 \<in> set (slice run1 0)" "discarded (overlaps run1 ! 0) \<noteq> 1"
    "discarded (overlaps run2 ! 0) \<noteq> 1"
    by (simp_all add: run1_defs slice_def)
  have act: "seqLen (readProfile run1 ! 0) \<noteq> 0" using h(2) by simp
  have g: "0 < length (overlaps bad1)" "discarded (overlaps bad1 ! 0) \<noteq> 1"
    "span_a_iid ?sq = 0 + 1"
    "unat (span_a_iid ?sq - 1) < length (readProfile bad1)"
    "unat (a_end ?sq) < length (errorMeanS (readProfile bad1 ! unat (span_a_iid ?sq - 1)))"
    "\<not> b_beg ?sq < b_end ?sq" "(0 :: 32 word) < 1"
    by (simp_all add: bad_defs)
  have k: "\<not> iv_hi ?iv \<le> (4 :: 32 word)" by simp
  note r = span_checks [of decodeEvalue encodeEvalue intervalDepth 1 2 1 run1 run2 0 0 ?sp
      0 bad1 ?sq 0 "[]" ?iv 4 "[]"]
  from r it1 h act run1Span0 intervalDepth_covers g(7)
  have 1: "a_beg ?sp < a_end ?sp" and 2: "a_end ?sp \<le> seqLen (readProfile run1 ! 0)"
    by blast+
  from 1 have a1: "(0 :: 32 word) < 4" by simp
  from 2 have a2: "(4 :: 32 word) \<le> 4" by simp
  from r g bad1Span
  have 3: "overlapBody decodeEvalue 1 1 0 0 (bad1, []) = Inl AssertFailed" by blast
  from r k have 4: "unpackBody encodeEvalue 4 ?iv [] = Inl AssertFailed" by blast
  have 5: "\<not> (3 :: 32 word) < 2" by simp
  from it1 h intervalDepth_covers run1Span0 a1 a2 bad1Span g(2) 5 3 4 show ?thesis by blast
qed

text \<open>The claim as stated fails in iteration 0, which completes on the run with three
  overlaps and discards none: the first has \<open>b_beg = 3\<close> and \<open>b_end = 2\<close>, the second has
  \<open>b_end = 4294967295\<close> on a read of length 2, and the third has \<open>a_beg = a_end = 4\<close>.\<close>

theorem span_checks_counterexample:
  "recomputeErrorProfile decodeEvalue encodeEvalue intervalDepth 1 2 0 loose0 = Inr loose1
   \<and> slice loose0 0 = [0, 1, 2]
   \<and> overlaps loose1 = overlaps loose0
   \<and> discarded (overlaps loose0 ! 0) = 0 \<and> discarded (overlaps loose0 ! 1) = 0
   \<and> discarded (overlaps loose0 ! 2) = 0
   \<and> seqLen (readProfile loose0 ! 0) = 4 \<and> seqLen (readProfile loose0 ! 1) = 2
   \<and> ESToverlapSpan (overlaps loose0 ! 0) (readProfile loose0) 1
       = Inr \<lparr>span_a_iid = 1, span_b_iid = 2, a_beg = 0, a_end = 3, b_beg = 3, b_end = 2,
            fwd = 1, span_erate = 200\<rparr>
   \<and> ESToverlapSpan (overlaps loose0 ! 1) (readProfile loose0) 1
       = Inr \<lparr>span_a_iid = 1, span_b_iid = 2, a_beg = 0, a_end = 4, b_beg = 0,
            b_end = 4294967295, fwd = 1, span_erate = 200\<rparr>
   \<and> ESToverlapSpan (overlaps loose0 ! 2) (readProfile loose0) 1
       = Inr \<lparr>span_a_iid = 1, span_b_iid = 2, a_beg = 4, a_end = 4, b_beg = 0, b_end = 2,
            fwd = 1, span_erate = 200\<rparr>
   \<and> \<not> (3 :: 32 word) < 2 \<and> \<not> (4294967295 :: 32 word) \<le> 2 \<and> \<not> (4 :: 32 word) < 4"
proof -
  have 1: "slice loose0 0 = [0, 1, 2]" "overlaps loose1 = overlaps loose0"
    "discarded (overlaps loose0 ! 0) = 0" "discarded (overlaps loose0 ! 1) = 0"
    "discarded (overlaps loose0 ! 2) = 0"
    "seqLen (readProfile loose0 ! 0) = 4" "seqLen (readProfile loose0 ! 1) = 2"
    by (simp_all add: loose_defs slice_def upt_03)
  have 2: "\<not> (3 :: 32 word) < 2" "\<not> (4294967295 :: 32 word) \<le> 2" "\<not> (4 :: 32 word) < 4"
    by simp_all
  from itL0 looseSpans 1 2 show ?thesis by blast
qed

subsection \<open>The output pass\<close>

lemma retained_Nil [simp]: "retained ovs [] = []"
  by (simp add: retained_def)

lemma retained_Cons:
  "retained (ovl # ovs) (r # rs) = (if discarded ovl = 1 then [] else [r]) @ retained ovs rs"
  by (simp add: retained_def)

lemma outputBody_eq:
  "outputBody ovs r (no, out) =
     (if \<not> no < length ovs then Inl OutOfBounds
      else if \<not> idsAgree r (ovs ! no) then Inl AssertFailed
      else Inr (Suc no, out @ (if discarded (ovs ! no) = 1 then [] else [r])))"
  by (auto simp: outputBody_def idsAgree_def Let_def)

lemma block_loop:
  "(forEach (outputBody ovs) rs (no, out) = Inr s)
     = ((rs \<noteq> [] \<longrightarrow> no + length rs \<le> length ovs)
        \<and> (\<forall>i<length rs. idsAgree (rs ! i) (ovs ! (no + i)))
        \<and> s = (no + length rs, out @ retained (drop no ovs) rs))"
proof (induction rs arbitrary: no out)
  case Nil
  then show ?case by auto
next
  case (Cons r rs)
  show ?case
  proof (cases "no < length ovs \<and> idsAgree r (ovs ! no)")
    case False
    then have "forEach (outputBody ovs) (r # rs) (no, out) \<noteq> Inr s"
      by (auto simp: outputBody_eq)
    moreover have "\<not> ((r # rs \<noteq> [] \<longrightarrow> no + length (r # rs) \<le> length ovs)
        \<and> (\<forall>i<length (r # rs). idsAgree ((r # rs) ! i) (ovs ! (no + i))))"
      using False by (cases "no < length ovs") auto
    ultimately show ?thesis by blast
  next
    case True
    then have lt: "no < length ovs" and ag: "idsAgree r (ovs ! no)" by simp_all
    have d: "drop no ovs = ovs ! no # drop (Suc no) ovs"
      using lt by (simp add: Cons_nth_drop_Suc)
    have step: "forEach (outputBody ovs) (r # rs) (no, out)
        = forEach (outputBody ovs) rs
            (Suc no, out @ (if discarded (ovs ! no) = 1 then [] else [r]))"
      using True by (simp add: outputBody_eq)
    have all: "(\<forall>i<length (r # rs). idsAgree ((r # rs) ! i) (ovs ! (no + i)))
        = (\<forall>i<length rs. idsAgree (rs ! i) (ovs ! (Suc no + i)))"
      using ag by (auto simp: less_Suc_eq_0_disj)
    show ?thesis
      unfolding step Cons.IH all d retained_Cons using lt by (cases "rs = []") auto
  qed
qed

lemma block_loop_error:
  assumes "no + length rs \<le> length ovs"
  shows "forEach (outputBody ovs) rs (no, out) \<noteq> Inl OutOfBounds"
  using assms
proof (induction rs arbitrary: no out)
  case Nil
  then show ?case by simp
next
  case (Cons r rs)
  then have lt: "no < length ovs" and rest: "Suc no + length rs \<le> length ovs" by simp_all
  show ?case
  proof (cases "idsAgree r (ovs ! no)")
    case True
    then show ?thesis using lt Cons.IH [OF rest] by (simp add: outputBody_eq)
  next
    case False
    then show ?thesis using lt by (simp add: outputBody_eq)
  qed
qed

lemma zip_take_length: "zip xs (take (length xs) zs) = zip xs zs"
proof (induction xs arbitrary: zs)
  case Nil
  then show ?case by simp
next
  case (Cons x xs)
  then show ?case by (cases zs) simp_all
qed

lemma retained_append:
  "retained ovs (rs @ ts) = retained ovs rs @ retained (drop (length rs) ovs) ts"
  by (simp add: retained_def zip_append1 zip_take_length)

lemma agree_append:
  "(\<forall>i<length (rs @ ts). idsAgree ((rs @ ts) ! i) (ovs ! (no + i)))
     = ((\<forall>i<length rs. idsAgree (rs ! i) (ovs ! (no + i)))
        \<and> (\<forall>i<length ts. idsAgree (ts ! i) (ovs ! (no + length rs + i))))"
proof
  assume a: "\<forall>i<length (rs @ ts). idsAgree ((rs @ ts) ! i) (ovs ! (no + i))"
  show "(\<forall>i<length rs. idsAgree (rs ! i) (ovs ! (no + i)))
        \<and> (\<forall>i<length ts. idsAgree (ts ! i) (ovs ! (no + length rs + i)))"
  proof (intro conjI allI impI)
    fix i assume "i < length rs"
    then show "idsAgree (rs ! i) (ovs ! (no + i))" using a [rule_format, of i]
      by (simp add: nth_append)
  next
    fix i assume "i < length ts"
    then show "idsAgree (ts ! i) (ovs ! (no + length rs + i))"
      using a [rule_format, of "length rs + i"] by (simp add: nth_append add.assoc)
  qed
next
  assume b: "(\<forall>i<length rs. idsAgree (rs ! i) (ovs ! (no + i)))
        \<and> (\<forall>i<length ts. idsAgree (ts ! i) (ovs ! (no + length rs + i)))"
  show "\<forall>i<length (rs @ ts). idsAgree ((rs @ ts) ! i) (ovs ! (no + i))"
  proof (intro allI impI)
    fix i assume i: "i < length (rs @ ts)"
    show "idsAgree ((rs @ ts) ! i) (ovs ! (no + i))"
    proof (cases "i < length rs")
      case True
      then show ?thesis using b by (simp add: nth_append)
    next
      case False
      then have "i - length rs < length ts" using i by simp
      with b have "idsAgree (ts ! (i - length rs)) (ovs ! (no + length rs + (i - length rs)))"
        by blast
      then show ?thesis using False by (simp add: nth_append)
    qed
  qed
qed

lemma output_loop:
  assumes "\<forall>b\<in>set blocks. b \<noteq> []" and "no + length (concat blocks) = numOvls"
  shows "(outputLoop numOvls ovs blocks (no, out) = Inr s)
     = ((blocks \<noteq> [] \<longrightarrow> numOvls \<le> length ovs)
        \<and> (\<forall>i<length (concat blocks). idsAgree (concat blocks ! i) (ovs ! (no + i)))
        \<and> s = (numOvls, out @ retained (drop no ovs) (concat blocks)))"
  using assms
proof (induction blocks arbitrary: no out)
  case Nil
  then show ?case by auto
next
  case (Cons b bs)
  from Cons.prems have ne: "b \<noteq> []" and nes: "\<forall>b\<in>set bs. b \<noteq> []"
    and tot: "(no + length b) + length (concat bs) = numOvls" by simp_all
  from ne tot have lt: "no < numOvls" by (cases b) simp_all
  note ih = Cons.IH [OF nes tot]
  show ?case
  proof (cases "forEach (outputBody ovs) b (no, out)")
    case (Inl e)
    then have l: "outputLoop numOvls ovs (b # bs) (no, out) \<noteq> Inr s"
      using lt ne by simp
    from Inl have n: "\<not> (no + length b \<le> length ovs
        \<and> (\<forall>i<length b. idsAgree (b ! i) (ovs ! (no + i))))"
      using block_loop [of ovs b no out "(no + length b, out @ retained (drop no ovs) b)"]
      by auto
    have ca: "concat (b # bs) = b @ concat bs" by simp
    have "\<not> (numOvls \<le> length ovs
        \<and> (\<forall>i<length (concat (b # bs)). idsAgree (concat (b # bs) ! i) (ovs ! (no + i))))"
    proof
      assume a: "numOvls \<le> length ovs
        \<and> (\<forall>i<length (concat (b # bs)). idsAgree (concat (b # bs) ! i) (ovs ! (no + i)))"
      then have "no + length b \<le> length ovs" using tot by simp
      moreover from a have "\<forall>i<length b. idsAgree (b ! i) (ovs ! (no + i))"
        unfolding ca agree_append by blast
      ultimately show False using n by blast
    qed
    with l show ?thesis by auto
  next
    case (Inr s')
    from Inr [unfolded block_loop] ne have
      1: "no + length b \<le> length ovs"
      and 2: "\<forall>i<length b. idsAgree (b ! i) (ovs ! (no + i))"
      and 3: "s' = (no + length b, out @ retained (drop no ovs) b)" by simp_all
    have step: "outputLoop numOvls ovs (b # bs) (no, out)
        = outputLoop numOvls ovs bs (no + length b, out @ retained (drop no ovs) b)"
      using lt ne Inr 3 by simp
    have bound: "(bs \<noteq> [] \<longrightarrow> numOvls \<le> length ovs) = (numOvls \<le> length ovs)"
      using 1 tot by (cases bs) auto
    have ca: "concat (b # bs) = b @ concat bs" by simp
    have ag: "(\<forall>i<length (concat (b # bs)). idsAgree (concat (b # bs) ! i) (ovs ! (no + i)))
        = (\<forall>i<length (concat bs). idsAgree (concat bs ! i) (ovs ! (no + length b + i)))"
      unfolding ca agree_append using 2 by blast
    have re: "retained (drop no ovs) (concat (b # bs))
        = retained (drop no ovs) b @ retained (drop (no + length b) ovs) (concat bs)"
      unfolding ca retained_append by (simp add: add.commute)
    have nb: "(b # bs \<noteq> [] \<longrightarrow> numOvls \<le> length ovs) = (numOvls \<le> length ovs)" by simp
    show ?thesis
      unfolding step ih bound ag re nb by simp
  qed
qed

lemma output_loop_error:
  assumes "\<forall>b\<in>set blocks. b \<noteq> []" and "no + length (concat blocks) = numOvls"
    and "numOvls \<le> length ovs"
  shows "outputLoop numOvls ovs blocks (no, out) \<noteq> Inl OutOfBounds"
  using assms(1,2)
proof (induction blocks arbitrary: no out)
  case Nil
  then show ?case by simp
next
  case (Cons b bs)
  from Cons.prems have ne: "b \<noteq> []" and nes: "\<forall>b\<in>set bs. b \<noteq> []"
    and tot: "(no + length b) + length (concat bs) = numOvls" by simp_all
  from ne tot have lt: "no < numOvls" by (cases b) simp_all
  have bd: "no + length b \<le> length ovs" using tot assms(3) by simp
  show ?case
  proof (cases "forEach (outputBody ovs) b (no, out)")
    case (Inl e)
    with block_loop_error [OF bd, of out] have "e \<noteq> OutOfBounds" by auto
    then show ?thesis using Inl lt ne by simp
  next
    case (Inr s')
    from Inr [unfolded block_loop] have 3: "s' = (no + length b, out @ retained (drop no ovs) b)"
      by simp
    show ?thesis using lt ne Inr 3 Cons.IH [OF nes tot] by simp
  qed
qed

text \<open>
  Claim C8. Let the input store stream, in non-empty blocks, exactly the \<open>numOvls\<close> records
  it reports. The output pass completes if and only if the array of packed overlaps has
  at least \<open>numOvls\<close> entries and, at every position, the record's \<open>a_iid\<close> and \<open>b_iid\<close> equal
  the identifiers decoded from the packed overlap at that position; it then has written
  exactly the records whose packed overlap is not discarded, unchanged and in the order
  of the stream. When the array is long enough and some position disagrees, the pass
  ends with a failed assertion.
\<close>

theorem output_pass:
  assumes ne: "\<forall>b\<in>set blocks. b \<noteq> []" and tot: "length (concat blocks) = numOvls"
  shows "((outputOverlaps numOvls blocks ovs = Inr out)
          = (numOvls \<le> length ovs
             \<and> (\<forall>i<numOvls. idsAgree (concat blocks ! i) (ovs ! i))
             \<and> out = retained ovs (concat blocks)))
     \<and> (numOvls \<le> length ovs \<and> \<not> (\<forall>i<numOvls. idsAgree (concat blocks ! i) (ovs ! i))
         \<longrightarrow> outputOverlaps numOvls blocks ovs = Inl AssertFailed)"
proof -
  have tot0: "0 + length (concat blocks) = numOvls" using tot by simp
  have bound: "(blocks \<noteq> [] \<longrightarrow> numOvls \<le> length ovs) = (numOvls \<le> length ovs)"
    using tot by (cases blocks) auto
  have L: "\<And>s. (outputLoop numOvls ovs blocks (0, []) = Inr s)
     = (numOvls \<le> length ovs
        \<and> (\<forall>i<numOvls. idsAgree (concat blocks ! i) (ovs ! i))
        \<and> s = (numOvls, retained ovs (concat blocks)))"
    using output_loop [OF ne tot0, of ovs "[]"] unfolding bound tot by simp
  have 1: "(outputOverlaps numOvls blocks ovs = Inr out)
          = (numOvls \<le> length ovs
             \<and> (\<forall>i<numOvls. idsAgree (concat blocks ! i) (ovs ! i))
             \<and> out = retained ovs (concat blocks))"
  proof (cases "outputLoop numOvls ovs blocks (0, [])")
    case (Inl e)
    then have "\<not> (numOvls \<le> length ovs
        \<and> (\<forall>i<numOvls. idsAgree (concat blocks ! i) (ovs ! i)))"
      using L [of "(numOvls, retained ovs (concat blocks))"] by auto
    then show ?thesis using Inl by (auto simp: outputOverlaps_def)
  next
    case (Inr s)
    with L [of s] show ?thesis by (auto simp: outputOverlaps_def)
  qed
  have 2: "numOvls \<le> length ovs \<and> \<not> (\<forall>i<numOvls. idsAgree (concat blocks ! i) (ovs ! i))
         \<longrightarrow> outputOverlaps numOvls blocks ovs = Inl AssertFailed"
  proof
    assume h: "numOvls \<le> length ovs \<and> \<not> (\<forall>i<numOvls. idsAgree (concat blocks ! i) (ovs ! i))"
    then have nb: "outputLoop numOvls ovs blocks (0, []) \<noteq> Inl OutOfBounds"
      using output_loop_error [OF ne tot0] by blast
    show "outputOverlaps numOvls blocks ovs = Inl AssertFailed"
    proof (cases "outputLoop numOvls ovs blocks (0, [])")
      case (Inl e)
      with nb have "e = AssertFailed" by (cases e) auto
      with Inl show ?thesis by (simp add: outputOverlaps_def)
    next
      case (Inr s)
      with L [of s] h show ?thesis by blast
    qed
  qed
  from 1 2 show ?thesis by blast
qed

theorem output_pass_witness:
  "[] \<notin> set store0 \<and> length (concat store0) = 3
   \<and> outputOverlaps 3 store0 (overlaps run2) = Inr [rec0, rec2]
   \<and> 3 \<le> length (overlaps run2)
   \<and> idsAgree (concat store0 ! 0) (overlaps run2 ! 0)
   \<and> idsAgree (concat store0 ! 1) (overlaps run2 ! 1)
   \<and> idsAgree (concat store0 ! 2) (overlaps run2 ! 2)
   \<and> retained (overlaps run2) (concat store0) = [rec0, rec2]"
proof -
  have n: "[] \<notin> set store0" by (simp add: store0_def)
  then have h: "\<forall>b\<in>set store0. b \<noteq> []" "length (concat store0) = 3"
    by (auto simp: store0_def)
  from output_pass [OF h, of "overlaps run2" "[rec0, rec2]"] out2
  have l: "3 \<le> length (overlaps run2)"
    and a: "\<forall>i<3. idsAgree (concat store0 ! i) (overlaps run2 ! i)"
    and r: "[rec0, rec2] = retained (overlaps run2) (concat store0)"
    by blast+
  from a have "idsAgree (concat store0 ! 0) (overlaps run2 ! 0)"
    and "idsAgree (concat store0 ! 1) (overlaps run2 ! 1)"
    and "idsAgree (concat store0 ! 2) (overlaps run2 ! 2)"
    by simp_all
  with n h(2) out2 l r [symmetric] show ?thesis by blast
qed

end
